theory Spec2Isabelle
  imports Main "HOL-Library.Word"
begin

unbundle bit_operations_syntax

section \<open>Values of the program\<close>

text \<open>
  The program is \<^verbatim>\<open>src/utils/totp.ts\<close>. A \<^verbatim>\<open>Uint8Array\<close> is a list of
  bytes, a JavaScript string is a list of characters. The strings of the model are ASCII
  text, which is what a Base32 secret is: the only letters with a case mapping are
  \<^verbatim>\<open>a\<close>..\<^verbatim>\<open>z\<close>, and the white space of \<^verbatim>\<open>\s\<close> is tab, line feed, vertical tab,
  form feed, carriage return and space. The operands of the bitwise operators of
  JavaScript are 32-bit integers, so they are words of 32 bits.
\<close>

type_synonym byte = "8 word"
type_synonym int32 = "32 word"

subsection \<open>String primitives\<close>

definition toUpperCase_char :: "char \<Rightarrow> char" where
  "toUpperCase_char c =
     (case map_of (zip ''abcdefghijklmnopqrstuvwxyz'' ''ABCDEFGHIJKLMNOPQRSTUVWXYZ'') c of
        None \<Rightarrow> c
      | Some u \<Rightarrow> u)"

definition toUpperCase :: "string \<Rightarrow> string" where
  "toUpperCase s = map toUpperCase_char s"

text \<open>The class \<^verbatim>\<open>\s\<close> on ASCII.\<close>

definition isSpace :: "char \<Rightarrow> bool" where
  "isSpace c \<longleftrightarrow> c \<in> set [CHR 0x09, CHR 0x0A, CHR 0x0B, CHR 0x0C, CHR 0x0D, CHR '' '']"

text \<open>\<^verbatim>\<open>s.replace(/\s/g, '')\<close>: every white space character is removed.\<close>

definition removeSpaces :: "string \<Rightarrow> string" where
  "removeSpaces s = filter (\<lambda>c. \<not> isSpace c) s"

text \<open>
  \<^verbatim>\<open>s.replace(/=+$/, "")\<close>: the leftmost position from which only \<^verbatim>\<open>=\<close> follows up
  to the end of the string starts the match, so the whole trailing run of \<^verbatim>\<open>=\<close> goes.
\<close>

definition stripPadding :: "string \<Rightarrow> string" where
  "stripPadding s = rev (dropWhile (\<lambda>c. c = CHR ''='') (rev s))"

text \<open>\<^verbatim>\<open>indexOf\<close> of one character; \<open>None\<close> is the result \<^verbatim>\<open>-1\<close>.\<close>

fun indexOf :: "string \<Rightarrow> char \<Rightarrow> nat option" where
  "indexOf [] c = None"
| "indexOf (x # xs) c =
     (if x = c then Some 0 else (case indexOf xs c of None \<Rightarrow> None | Some i \<Rightarrow> Some (Suc i)))"

section \<open>The Base32 decoder\<close>

definition base32Chars :: string where
  "base32Chars = ''ABCDEFGHIJKLMNOPQRSTUVWXYZ234567''"

text \<open>
  A store into a typed array: an index outside the array is ignored, and the value is
  reduced to its low 8 bits.
\<close>

definition storeByte :: "byte list \<Rightarrow> nat \<Rightarrow> int32 \<Rightarrow> byte list" where
  "storeByte buffer i v = (if i < length buffer then buffer[i := ucast v] else buffer)"

text \<open>
  The \<^verbatim>\<open>for\<close> loop of \<^verbatim>\<open>base32ToBuffer\<close>, over the characters that are left, with the
  variables \<^verbatim>\<open>buffer\<close>, \<^verbatim>\<open>bits\<close>, \<^verbatim>\<open>value\<close> and \<^verbatim>\<open>index\<close> of the source. The
  source never masks \<^verbatim>\<open>value\<close>: it is a 32-bit integer that \<^verbatim>\<open><<\<close> wraps around.
\<close>

fun decodeLoop :: "string \<Rightarrow> byte list \<Rightarrow> nat \<Rightarrow> int32 \<Rightarrow> nat \<Rightarrow> byte list" where
  "decodeLoop [] buffer bits val index = buffer"
| "decodeLoop (c # cs) buffer bits val index =
     (case indexOf base32Chars c of
        None \<Rightarrow> decodeLoop cs buffer bits val index
      | Some idx \<Rightarrow>
          (let val' = push_bit 5 val OR of_nat idx;
               bits' = bits + 5
           in if bits' \<ge> 8
              then decodeLoop cs
                     (storeByte buffer index (drop_bit (bits' - 8) val' AND 255))
                     (bits' - 8) val' (index + 1)
              else decodeLoop cs buffer bits' val' index))"

definition cleanStr :: "string \<Rightarrow> string" where
  "cleanStr str = removeSpaces (stripPadding (toUpperCase str))"

definition base32ToBuffer :: "string \<Rightarrow> byte list" where
  "base32ToBuffer str =
     (let s = cleanStr str
      in decodeLoop s (replicate ((length s * 5) div 8) 0) 0 0 0)"

section \<open>The TOTP engine\<close>

subsection \<open>The platform\<close>

text \<open>
  What a call of the platform throws, or what a promise of the platform is rejected with:
  a \<^verbatim>\<open>DataView\<close> write outside its buffer, and a failure of \<^verbatim>\<open>crypto.subtle\<close>.
\<close>

datatype error = RangeError | CryptoError

text \<open>
  \<^verbatim>\<open>window.crypto.subtle\<close> is not part of the program: \<^verbatim>\<open>importKey\<close> and \<^verbatim>\<open>sign\<close>
  are parameters, each of them resolving to a value or failing.
\<close>

record 'k subtle =
  importKey :: "byte list \<Rightarrow> error + 'k"
  sign :: "'k \<Rightarrow> byte list \<Rightarrow> error + byte list"

definition hmacSha1 :: "'k subtle \<Rightarrow> byte list \<Rightarrow> byte list \<Rightarrow> error + byte list" where
  "hmacSha1 crypto key data =
     (case importKey crypto key of
        Inl e \<Rightarrow> Inl e
      | Inr cryptoKey \<Rightarrow>
          (case sign crypto cryptoKey data of
             Inl e \<Rightarrow> Inl e
           | Inr signature \<Rightarrow> Inr signature))"

subsection \<open>Clock and counter\<close>

text \<open>
  \<^verbatim>\<open>new Date().getTime()\<close> is the clock: a whole number of milliseconds since 1970,
  the argument \<open>now\<close> of the functions below. \<^verbatim>\<open>Math.round(now / 1000.0)\<close> is the
  nearest whole number of seconds, a half rounding up. (The quotient is computed in
  floating point; its error is far below the 0.001 that separates two readings, so the
  rounded value is the exact one.) The window length is a whole number of seconds.
\<close>

definition epochOf :: "nat \<Rightarrow> nat" where
  "epochOf now = (now + 500) div 1000"

text \<open>
  \<^verbatim>\<open>Math.floor(epoch / windowSeconds)\<close>. A division by 0 gives \<^verbatim>\<open>Infinity\<close> or
  \<^verbatim>\<open>NaN\<close>, which is \<open>None\<close> here.
\<close>

definition timeStep :: "nat \<Rightarrow> nat \<Rightarrow> nat option" where
  "timeStep epoch windowSeconds =
     (if windowSeconds = 0 then None else Some (epoch div windowSeconds))"

text \<open>The conversion of a number to an unsigned 32-bit integer: modulo \<open>2^32\<close>, and 0
  for a number that is not finite.\<close>

definition toUint32 :: "nat option \<Rightarrow> int32" where
  "toUint32 x = (case x of None \<Rightarrow> 0 | Some n \<Rightarrow> of_nat n)"

text \<open>\<^verbatim>\<open>view.setUint32(byteOffset, value, false)\<close>: four bytes, the most significant one
  first; a \<^verbatim>\<open>RangeError\<close> when they do not fit.\<close>

definition setUint32 :: "byte list \<Rightarrow> nat \<Rightarrow> int32 \<Rightarrow> error + byte list" where
  "setUint32 buffer byteOffset v =
     (if byteOffset + 4 > length buffer then Inl RangeError
      else Inr (take byteOffset buffer
                @ [ucast (drop_bit 24 v), ucast (drop_bit 16 v), ucast (drop_bit 8 v), ucast v]
                @ drop (byteOffset + 4) buffer))"

text \<open>The message that is signed: a fresh \<^verbatim>\<open>ArrayBuffer(8)\<close>, all zero, and the two
  writes of the source.\<close>

definition counterBuffer :: "nat \<Rightarrow> nat \<Rightarrow> error + byte list" where
  "counterBuffer now windowSeconds =
     (let epoch = epochOf now;
          time = timeStep epoch windowSeconds
      in case setUint32 (replicate 8 0) 0 0 of
           Inl e \<Rightarrow> Inl e
         | Inr buffer \<Rightarrow> setUint32 buffer 4 (toUint32 time))"

subsection \<open>Truncation and formatting\<close>

text \<open>A read of a typed array; outside the array it is \<^verbatim>\<open>undefined\<close>, here \<open>None\<close>. As
  an operand of \<^verbatim>\<open>&\<close>, \<^verbatim>\<open>undefined\<close> is 0.\<close>

definition at :: "byte list \<Rightarrow> int \<Rightarrow> byte option" where
  "at xs i = (if 0 \<le> i \<and> i < int (length xs) then Some (xs ! nat i) else None)"

definition toInt32 :: "byte option \<Rightarrow> int32" where
  "toInt32 x = (case x of None \<Rightarrow> 0 | Some b \<Rightarrow> ucast b)"

definition truncOffset :: "byte list \<Rightarrow> int32" where
  "truncOffset hmac = toInt32 (at hmac (int (length hmac) - 1)) AND 0xf"

definition truncBinary :: "byte list \<Rightarrow> int32" where
  "truncBinary hmac =
     (let offset = uint (truncOffset hmac)
      in push_bit 24 (toInt32 (at hmac offset) AND 0x7f)
         OR push_bit 16 (toInt32 (at hmac (offset + 1)) AND 0xff)
         OR push_bit 8 (toInt32 (at hmac (offset + 2)) AND 0xff)
         OR (toInt32 (at hmac (offset + 3)) AND 0xff))"

text \<open>\<^verbatim>\<open>%\<close> with a divisor that is not 0: the result has the sign of the
  dividend.\<close>

definition jsRem :: "int \<Rightarrow> int \<Rightarrow> int" where
  "jsRem a b = sgn a * (\<bar>a\<bar> mod \<bar>b\<bar>)"

definition digitChar :: "nat \<Rightarrow> char" where
  "digitChar d = ''0123456789'' ! d"

fun natToString :: "nat \<Rightarrow> string" where
  "natToString n =
     (if n < 10 then [digitChar n] else natToString (n div 10) @ [digitChar (n mod 10)])"

declare natToString.simps [simp del]

text \<open>\<^verbatim>\<open>toString()\<close> of an integer.\<close>

definition numberToString :: "int \<Rightarrow> string" where
  "numberToString i =
     (if i < 0 then CHR ''-'' # natToString (nat (- i)) else natToString (nat i))"

definition padStart :: "nat \<Rightarrow> char \<Rightarrow> string \<Rightarrow> string" where
  "padStart n c s = replicate (n - length s) c @ s"

definition formatCode :: "int32 \<Rightarrow> string" where
  "formatCode binary =
     (let otp = jsRem (sint binary) 1000000
      in padStart 6 (CHR ''0'') (numberToString otp))"

subsection \<open>generateTOTP, getTimeRemaining, isValidBase32\<close>

text \<open>The body of the \<^verbatim>\<open>try\<close> block: the code, or what was thrown.\<close>

definition generateTOTP_try :: "'k subtle \<Rightarrow> nat \<Rightarrow> string \<Rightarrow> nat \<Rightarrow> error + string" where
  "generateTOTP_try crypto now secret windowSeconds =
     (let keyBytes = base32ToBuffer secret
      in if length keyBytes = 0 then Inr ''INVALID''
         else case counterBuffer now windowSeconds of
                Inl e \<Rightarrow> Inl e
              | Inr buffer \<Rightarrow>
                  (case hmacSha1 crypto keyBytes buffer of
                     Inl e \<Rightarrow> Inl e
                   | Inr hmac \<Rightarrow> Inr (formatCode (truncBinary hmac))))"

text \<open>The promise that \<^verbatim>\<open>generateTOTP\<close> returns: \<open>Inr\<close> the string it resolves to,
  \<open>Inl\<close> a rejection.\<close>

definition generateTOTP :: "'k subtle \<Rightarrow> nat \<Rightarrow> string \<Rightarrow> nat \<Rightarrow> error + string" where
  "generateTOTP crypto now secret windowSeconds =
     (case generateTOTP_try crypto now secret windowSeconds of
        Inl e \<Rightarrow> Inr ''ERROR''
      | Inr code \<Rightarrow> Inr code)"

text \<open>The result of \<^verbatim>\<open>getTimeRemaining\<close> is a number; \<open>None\<close> is \<^verbatim>\<open>NaN\<close>, the
  remainder of a division by 0.\<close>

definition getTimeRemaining :: "nat \<Rightarrow> nat \<Rightarrow> int option" where
  "getTimeRemaining now windowSeconds =
     (let epoch = epochOf now
      in if windowSeconds = 0 then None
         else Some (int windowSeconds - jsRem (int epoch) (int windowSeconds)))"

text \<open>
  The regular expression \<^verbatim>\<open>/^[A-Z2-7]+=*$/i\<close>. Without the flag \<^verbatim>\<open>u\<close>, the flag
  \<^verbatim>\<open>i\<close> compares the upper case forms, and only of ASCII characters.
\<close>

definition inClass :: "char \<Rightarrow> bool" where
  "inClass c \<longleftrightarrow> toUpperCase_char c \<in> set ''ABCDEFGHIJKLMNOPQRSTUVWXYZ234567''"

text \<open>\<^verbatim>\<open>=*$\<close>: only \<^verbatim>\<open>=\<close> up to the end.\<close>

fun matchPadding :: "string \<Rightarrow> bool" where
  "matchPadding [] = True"
| "matchPadding (c # cs) = (c = CHR ''='' \<and> matchPadding cs)"

text \<open>\<^verbatim>\<open>[A-Z2-7]+\<close> after its first character: the class is taken as long as it
  matches, which loses no match, since \<^verbatim>\<open>=\<close> is not in the class.\<close>

fun matchClassStar :: "string \<Rightarrow> bool" where
  "matchClassStar [] = True"
| "matchClassStar (c # cs) = (if inClass c then matchClassStar cs else matchPadding (c # cs))"

fun regexTest :: "string \<Rightarrow> bool" where
  "regexTest [] = False"
| "regexTest (c # cs) = (inClass c \<and> matchClassStar cs)"

text \<open>The argument is a string, or \<^verbatim>\<open>null\<close> (\<open>None\<close>); \<^verbatim>\<open>!str\<close> holds of \<^verbatim>\<open>null\<close>
  and of the empty string.\<close>

definition isValidBase32 :: "string option \<Rightarrow> bool" where
  "isValidBase32 str =
     (case str of
        None \<Rightarrow> False
      | Some s \<Rightarrow> if s = [] then False else regexTest (removeSpaces s))"

section \<open>What the specification says\<close>

text \<open>
  The definitions of this section follow the words of the specification, not the source;
  the properties compare them with the program.
\<close>

subsection \<open>The reference decoder\<close>

text \<open>Upper case, no white space, no trailing padding, in this order.\<close>

definition normalized :: "string \<Rightarrow> string" where
  "normalized str = stripPadding (removeSpaces (toUpperCase str))"

text \<open>
  The bit accumulator is an unbounded integer, and the output is the bytes that are
  emitted: 5 more bits for each character of the alphabet, one byte, the top 8 of the
  accumulated bits, whenever there are 8 of them; any other character is skipped.
\<close>

fun emitted :: "string \<Rightarrow> int \<Rightarrow> nat \<Rightarrow> byte list" where
  "emitted [] acc bits = []"
| "emitted (c # cs) acc bits =
     (case indexOf base32Chars c of
        None \<Rightarrow> emitted cs acc bits
      | Some v \<Rightarrow>
          (let acc' = push_bit 5 acc OR int v;
               bits' = bits + 5
           in if bits' \<ge> 8
              then of_int (drop_bit (bits' - 8) acc' AND 255) # emitted cs acc' (bits' - 8)
              else emitted cs acc' bits'))"

definition referenceDecode :: "string \<Rightarrow> byte list" where
  "referenceDecode str = emitted (normalized str) 0 0"

text \<open>The characters of the alphabet in a string.\<close>

definition validChars :: "string \<Rightarrow> string" where
  "validChars s = filter (\<lambda>c. indexOf base32Chars c \<noteq> None) s"

subsection \<open>Counter, truncation and code\<close>

text \<open>
  The clock in seconds, rounded to the nearest whole second, a half going up: the clock is
  a whole number of milliseconds, and the second is the next one from 500 ms on.
\<close>

definition roundedSeconds :: "nat \<Rightarrow> nat" where
  "roundedSeconds ms = (if ms mod 1000 < 500 then ms div 1000 else ms div 1000 + 1)"

text \<open>The 8 bytes of a 64-bit unsigned integer, the most significant one first.\<close>

definition bigEndian64 :: "nat \<Rightarrow> byte list" where
  "bigEndian64 n =
     [of_nat (n div 2 ^ 56), of_nat (n div 2 ^ 48), of_nat (n div 2 ^ 40), of_nat (n div 2 ^ 32),
      of_nat (n div 2 ^ 24), of_nat (n div 2 ^ 16), of_nat (n div 2 ^ 8), of_nat n]"

text \<open>Dynamic truncation of a digest of 20 bytes, on unbounded integers.\<close>

definition dtOffset :: "byte list \<Rightarrow> nat" where
  "dtOffset digest = unat (digest ! 19 AND 0x0F)"

definition dtBinary :: "byte list \<Rightarrow> int" where
  "dtBinary digest =
     (let offset = dtOffset digest
      in push_bit 24 (uint (digest ! offset AND 0x7F))
         OR push_bit 16 (uint (digest ! (offset + 1)))
         OR push_bit 8 (uint (digest ! (offset + 2)))
         OR uint (digest ! (offset + 3)))"

text \<open>The number that a string of decimal digits denotes.\<close>

definition isDigit :: "char \<Rightarrow> bool" where
  "isDigit c \<longleftrightarrow> c \<in> set ''0123456789''"

definition digitValue :: "char \<Rightarrow> nat" where
  "digitValue c = of_char c - 48"

definition decimalValue :: "string \<Rightarrow> nat" where
  "decimalValue s = foldl (\<lambda>a c. 10 * a + digitValue c) 0 s"

subsection \<open>HMAC-SHA1\<close>

text \<open>
  Modelled from the spec: the keyed digest HMAC-SHA1 of \<^verbatim>\<open>window.crypto.subtle\<close>, the
  platform primitive behind \<^verbatim>\<open>importKey\<close> and \<^verbatim>\<open>sign\<close>, whose code is not in the
  repository. The specification names the algorithm; the definitions below are SHA-1 as
  FIPS 180-4 defines it and HMAC as RFC 2104 defines it, on bytes and 32-bit words held as
  integers, with the reduction modulo \<open>2^32\<close> written out.
\<close>

definition add32 :: "int \<Rightarrow> int \<Rightarrow> int" where
  "add32 x y = (x + y) mod 4294967296"

definition rotl32 :: "nat \<Rightarrow> int \<Rightarrow> int" where
  "rotl32 n x = (x * 2 ^ n) mod 4294967296 + x div 2 ^ (32 - n)"

datatype stage = Ch | Parity | Maj

text \<open>The complement of a 32-bit word is its exclusive or with \<open>2^32 - 1\<close>.\<close>

fun sha1_f :: "stage \<Rightarrow> int \<Rightarrow> int \<Rightarrow> int \<Rightarrow> int" where
  "sha1_f Ch b c d = (b AND c) XOR ((b XOR 0xFFFFFFFF) AND d)"
| "sha1_f Parity b c d = b XOR c XOR d"
| "sha1_f Maj b c d = (b AND c) XOR (b AND d) XOR (c AND d)"

definition times20 :: "'a \<Rightarrow> 'a list" where
  "times20 x = [x, x, x, x, x, x, x, x, x, x, x, x, x, x, x, x, x, x, x, x]"

text \<open>The function and the constant of each of the 80 rounds.\<close>

definition sha1_rounds :: "(stage \<times> int) list" where
  "sha1_rounds = times20 (Ch, 0x5A827999) @ times20 (Parity, 0x6ED9EBA1)
     @ times20 (Maj, 0x8F1BBCDC) @ times20 (Parity, 0xCA62C1D6)"

type_synonym sha1_state = "int \<times> int \<times> int \<times> int \<times> int"

text \<open>
  The rounds that are left, on the 16 words of the message schedule from the current
  round on: round \<open>t\<close> uses \<open>W\<^sub>t\<close> and appends
  \<open>W\<^bsub>t+16\<^esub> = ROTL\<^sup>1 (W\<^bsub>t+13\<^esub> XOR W\<^bsub>t+8\<^esub> XOR W\<^bsub>t+2\<^esub> XOR W\<^sub>t)\<close>.
\<close>

fun sha1_steps :: "(stage \<times> int) list \<Rightarrow> int list \<Rightarrow> sha1_state \<Rightarrow> sha1_state" where
  "sha1_steps [] ws s = s"
| "sha1_steps ((g, k) # rs) ws (a, b, c, d, e) =
     sha1_steps rs
       (tl ws @ [rotl32 1 (ws ! 13 XOR ws ! 8 XOR ws ! 2 XOR ws ! 0)])
       (add32 (add32 (add32 (add32 (rotl32 5 a) (sha1_f g b c d)) e) k) (ws ! 0),
        a, rotl32 30 b, c, d)"

fun sha1_compress :: "sha1_state \<Rightarrow> int list \<Rightarrow> sha1_state" where
  "sha1_compress (h0, h1, h2, h3, h4) ws =
     (case sha1_steps sha1_rounds ws (h0, h1, h2, h3, h4) of
        (a, b, c, d, e) \<Rightarrow> (add32 h0 a, add32 h1 b, add32 h2 c, add32 h3 d, add32 h4 e))"

text \<open>Big-endian words of 4 bytes.\<close>

fun sha1_words :: "int list \<Rightarrow> int list" where
  "sha1_words (a # b # c # d # bs) = (((a * 256 + b) * 256 + c) * 256 + d) # sha1_words bs"
| "sha1_words bs = []"

function sha1_blocks :: "sha1_state \<Rightarrow> int list \<Rightarrow> sha1_state" where
  "sha1_blocks h ws =
     (if ws = [] then h else sha1_blocks (sha1_compress h (take 16 ws)) (drop 16 ws))"
  by pat_completeness auto
termination
  by (relation "measure (\<lambda>(h, ws). length ws)") auto

declare sha1_blocks.simps [simp del]

text \<open>The byte \<open>0x80\<close>, zeros up to 56 modulo 64, and the length in bits on 8 bytes.\<close>

definition sha1_pad :: "int list \<Rightarrow> int list" where
  "sha1_pad m =
     (let n = length m;
          l = int (8 * n)
      in m @ [0x80] @ replicate ((64 - (n + 9) mod 64) mod 64) 0
         @ map (\<lambda>i. (l div 2 ^ (8 * i)) mod 256) [7, 6, 5, 4, 3, 2, 1, 0])"

definition sha1_bytes :: "int \<Rightarrow> int list" where
  "sha1_bytes w = [w div 16777216, (w div 65536) mod 256, (w div 256) mod 256, w mod 256]"

definition sha1 :: "int list \<Rightarrow> int list" where
  "sha1 m =
     (case sha1_blocks (0x67452301, 0xEFCDAB89, 0x98BADCFE, 0x10325476, 0xC3D2E1F0)
             (sha1_words (sha1_pad m)) of
        (h0, h1, h2, h3, h4) \<Rightarrow>
          sha1_bytes h0 @ sha1_bytes h1 @ sha1_bytes h2 @ sha1_bytes h3 @ sha1_bytes h4)"

definition hmac_sha1 :: "int list \<Rightarrow> int list \<Rightarrow> int list" where
  "hmac_sha1 key text =
     (let k = (if length key > 64 then sha1 key else key);
          k0 = k @ replicate (64 - length k) 0
      in sha1 (map (\<lambda>b. b XOR 0x5C) k0 @ sha1 (map (\<lambda>b. b XOR 0x36) k0 @ text)))"

text \<open>
  The platform with this digest: the imported key is the raw key, an empty key is
  rejected, and signing is total.
\<close>

definition webCrypto :: "(byte list) subtle" where
  "webCrypto =
     \<lparr>importKey = (\<lambda>key. if key = [] then Inl CryptoError else Inr key),
      sign = (\<lambda>cryptoKey data. Inr (map of_int (hmac_sha1 (map uint cryptoKey) (map uint data))))\<rparr>"

text \<open>A platform on which every import fails, as in a page without \<^verbatim>\<open>crypto.subtle\<close>.\<close>

definition noCrypto :: "unit subtle" where
  "noCrypto = \<lparr>importKey = (\<lambda>key. Inl CryptoError), sign = (\<lambda>cryptoKey data. Inl CryptoError)\<rparr>"

text \<open>The codes that RFC 6238 publishes for SHA-1 at 59 s and at 1111111109 s, of 8 digits.\<close>

definition rfcTotp_59 :: string where
  "rfcTotp_59 = ''94287082''"

definition rfcTotp_1111111109 :: string where
  "rfcTotp_1111111109 = ''07081804''"

text \<open>
  The secret of the test vectors of RFC 6238, and the key that it encodes: the ASCII string
  \<^verbatim>\<open>12345678901234567890\<close>.
\<close>

definition rfcSecret :: string where
  "rfcSecret = ''GEZDGNBVGY3TQOJQGEZDGNBVGY3TQOJQ''"

definition rfcKey :: "byte list" where
  "rfcKey = [49, 50, 51, 52, 53, 54, 55, 56, 57, 48, 49, 50, 51, 52, 53, 54, 55, 56, 57, 48]"

section \<open>Properties\<close>

subsection \<open>Arithmetic of the model\<close>

lemma jsRem_nonneg: "0 \<le> a \<Longrightarrow> 0 < b \<Longrightarrow> jsRem a b = a mod b"
  by (cases "a = 0") (simp_all add: jsRem_def)

lemma ucast_drop_bit_of_nat:
  "(ucast (drop_bit k (of_nat n :: int32)) :: byte) = of_nat (n mod 2 ^ 32 div 2 ^ k)"
proof -
  have "(ucast (drop_bit k (of_nat n :: int32)) :: byte)
      = of_nat (unat (drop_bit k (of_nat n :: int32)))"
    by (simp only: of_nat_unat)
  also have "unat (drop_bit k (of_nat n :: int32)) = n mod 2 ^ 32 div 2 ^ k"
    by (subst unat_drop_bit_eq) (simp add: unat_of_nat drop_bit_eq_div)
  finally show ?thesis .
qed

lemma ucast_of_nat32: "(ucast (of_nat n :: int32) :: byte) = of_nat n"
  by (rule bit_word_eqI) (simp add: bit_simps)

lemma of_nat_mod32_byte: "(of_nat (n mod 4294967296) :: byte) = of_nat n"
  by (rule bit_word_eqI) (simp add: bit_simps flip: take_bit_eq_mod [of 32 n, simplified])

lemma mask8_int32: "(0xff :: int32) = mask 8"
  by (simp add: mask_eq_exp_minus_1)

lemma mask7_int32: "(0x7f :: int32) = mask 7"
  by (simp add: mask_eq_exp_minus_1)

lemma mask7_byte: "(0x7f :: byte) = mask 7"
  by (simp add: mask_eq_exp_minus_1)

lemma mask4_int32: "(0xf :: int32) = mask 4"
  by (simp add: mask_eq_exp_minus_1)

lemma mask4_byte: "(0xf :: byte) = mask 4"
  by (simp add: mask_eq_exp_minus_1)

lemma byte_bit: "bit (b :: byte) n \<Longrightarrow> n < 8"
  by (drule bit_imp_le_length) simp

lemma ucast_and_ff: "(ucast (b :: byte) :: int32) AND 0xff = ucast b"
  unfolding mask8_int32 by (rule bit_word_eqI) (auto simp: bit_simps dest: byte_bit)

lemma ucast_and_7f: "(ucast (b :: byte) :: int32) AND 0x7f = ucast (b AND 0x7f)"
  unfolding mask7_int32 mask7_byte by (rule bit_word_eqI) (auto simp: bit_simps)

lemma ucast_and_f: "(ucast (b :: byte) :: int32) AND 0xf = ucast (b AND 0xf)"
  unfolding mask4_int32 mask4_byte by (rule bit_word_eqI) (auto simp: bit_simps)

lemma uint_push_ucast:
  "k \<le> 24 \<Longrightarrow> uint (push_bit k (ucast (b :: byte) :: int32)) = push_bit k (uint b)"
  by (rule bit_eqI) (auto simp: bit_simps dest: byte_bit)

lemma uint_ucast_byte: "uint (ucast (b :: byte) :: int32) = uint b"
  by (rule bit_eqI) (auto simp: bit_simps dest: byte_bit)

lemma sint_nonneg_of_bit: "\<not> bit (w :: int32) 31 \<Longrightarrow> 0 \<le> sint w"
  using bit_last_iff [of w] by simp

lemma sint_eq_uint_of_bit: "\<not> bit (w :: int32) 31 \<Longrightarrow> sint w = uint w"
  by (rule bit_eqI) (auto simp: bit_sint_iff bit_uint_iff dest: bit_imp_le_length)

subsection \<open>Decimal strings\<close>

lemma isDigit_digitChar: "k < 10 \<Longrightarrow> isDigit (digitChar k)"
proof -
  assume "k < 10"
  then have "k \<in> {0, 1, 2, 3, 4, 5, 6, 7, 8, 9}" by auto
  then show ?thesis
    by (auto simp: isDigit_def digitChar_def)
qed

lemma digitValue_digitChar: "k < 10 \<Longrightarrow> digitValue (digitChar k) = k"
proof -
  assume "k < 10"
  then have "k \<in> {0, 1, 2, 3, 4, 5, 6, 7, 8, 9}" by auto
  then show ?thesis
    by (auto simp: digitValue_def digitChar_def)
qed

lemma natToString_digits: "\<forall>c\<in>set (natToString n). isDigit c"
proof (induction n rule: natToString.induct)
  case (1 n)
  show ?case
  proof (cases "n < 10")
    case True
    then show ?thesis
      by (subst natToString.simps) (simp add: isDigit_digitChar)
  next
    case False
    with 1 show ?thesis
      by (subst natToString.simps) (simp add: isDigit_digitChar)
  qed
qed

lemma decimalValue_snoc: "decimalValue (s @ [c]) = 10 * decimalValue s + digitValue c"
  by (simp add: decimalValue_def)

lemma decimalValue_natToString: "decimalValue (natToString n) = n"
proof (induction n rule: natToString.induct)
  case (1 n)
  show ?case
  proof (cases "n < 10")
    case True
    then show ?thesis
      by (subst natToString.simps) (simp add: decimalValue_def digitValue_digitChar)
  next
    case False
    with 1 have "decimalValue (natToString (n div 10)) = n div 10" by simp
    with False show ?thesis
      by (subst natToString.simps) (simp add: decimalValue_snoc digitValue_digitChar)
  qed
qed

lemma length_natToString: "n < 10 ^ k \<Longrightarrow> 0 < k \<Longrightarrow> length (natToString n) \<le> k"
proof (induction n arbitrary: k rule: natToString.induct)
  case (1 n)
  show ?case
  proof (cases "n < 10")
    case True
    with 1(3) show ?thesis
      by (subst natToString.simps) simp
  next
    case False
    with 1(2) have "1 < k"
      by (cases "k = 1") (use 1(3) in auto)
    then obtain j where k: "k = Suc j" and j: "0 < j"
      by (cases k) auto
    from 1(2) k have "n div 10 < 10 ^ j"
      by (simp add: less_mult_imp_div_less mult.commute)
    with 1(1) False j have "length (natToString (n div 10)) \<le> j" by simp
    with False k show ?thesis
      by (subst natToString.simps) simp
  qed
qed

lemma decimalValue_zeros: "decimalValue (replicate k CHR ''0'' @ s) = decimalValue s"
proof -
  have "foldl (\<lambda>a c. 10 * a + digitValue c) 0 (replicate k CHR ''0'') = 0"
    by (induction k) (simp_all add: digitValue_def)
  then show ?thesis
    by (simp add: decimalValue_def)
qed

lemma padStart6:
  assumes "n < 1000000"
  shows "length (padStart 6 CHR ''0'' (natToString n)) = 6"
    and "\<forall>c\<in>set (padStart 6 CHR ''0'' (natToString n)). isDigit c"
    and "decimalValue (padStart 6 CHR ''0'' (natToString n)) = n"
proof -
  have "n < 10 ^ 6" using assms by simp
  then have "length (natToString n) \<le> 6" by (rule length_natToString) simp
  then show "length (padStart 6 CHR ''0'' (natToString n)) = 6"
    by (simp add: padStart_def)
  have z: "isDigit CHR ''0''" by (simp add: isDigit_def)
  show "\<forall>c\<in>set (padStart 6 CHR ''0'' (natToString n)). isDigit c"
    using natToString_digits [of n] z by (auto simp: padStart_def)
  show "decimalValue (padStart 6 CHR ''0'' (natToString n)) = n"
    by (simp add: padStart_def decimalValue_zeros decimalValue_natToString)
qed

lemma digits_not_sentinel:
  assumes "\<forall>c\<in>set s. isDigit c"
  shows "s \<noteq> ''INVALID''" and "s \<noteq> ''ERROR''"
proof -
  have "\<not> isDigit CHR ''I''" "\<not> isDigit CHR ''E''"
    by (simp_all add: isDigit_def)
  with assms show "s \<noteq> ''INVALID''" and "s \<noteq> ''ERROR''"
    by auto
qed

lemma natToString_287082: "natToString 287082 = ''287082''"
  by (simp add: natToString.simps digitChar_def)

lemma natToString_81804: "natToString 81804 = ''81804''"
  by (simp add: natToString.simps digitChar_def)

subsection \<open>The counter\<close>

lemma counterBuffer_eq:
  "counterBuffer now w =
     (let t = toUint32 (timeStep (epochOf now) w)
      in Inr [0, 0, 0, 0, ucast (drop_bit 24 t), ucast (drop_bit 16 t), ucast (drop_bit 8 t),
              ucast t])"
  by (simp add: counterBuffer_def setUint32_def Let_def)

lemma counterBuffer_mod:
  assumes "0 < w"
  shows "counterBuffer now w = Inr (bigEndian64 ((epochOf now div w) mod 2 ^ 32))"
proof -
  define c where "c = epochOf now div w"
  have lt: "c mod 2 ^ 32 < (2::nat) ^ 32" by simp
  have hi: "c mod 2 ^ 32 div 2 ^ 56 = 0" "c mod 2 ^ 32 div 2 ^ 48 = 0"
    "c mod 2 ^ 32 div 2 ^ 40 = 0" "c mod 2 ^ 32 div 2 ^ 32 = 0"
    using lt by simp_all
  have t: "toUint32 (timeStep (epochOf now) w) = of_nat c"
    using assms by (simp add: timeStep_def toUint32_def c_def)
  have lo: "(of_nat (c mod 2 ^ 32) :: byte) = of_nat c"
    using of_nat_mod32_byte [of c] by simp
  show ?thesis
    unfolding counterBuffer_eq t Let_def bigEndian64_def c_def [symmetric]
      ucast_drop_bit_of_nat ucast_of_nat32 hi lo
    by simp
qed

lemma epochOf_nearest:
  "1000 * epochOf now \<le> now + 500 \<and> now + 500 < 1000 * epochOf now + 1000"
proof -
  have "now + 500 = 1000 * ((now + 500) div 1000) + (now + 500) mod 1000"
    by simp
  moreover have "(now + 500) mod 1000 < 1000"
    by simp
  ultimately show ?thesis
    unfolding epochOf_def by linarith
qed

text \<open>
  Claim C6, as the program has it. The epoch is the clock rounded to the nearest second,
  a half going up (at 1500 ms it is 2, not 1), and the counter is the quotient of the epoch
  by the window. The buffer is the 64-bit big-endian form of the counter modulo \<open>2^32\<close>:
  its high 4 bytes are always zero, and it is the 64-bit big-endian form of the counter
  itself for every counter up to \<open>2^32 - 1\<close>.
\<close>

theorem counter_serialization:
  assumes "0 < w"
  shows "(1000 * epochOf now \<le> now + 500 \<and> now + 500 < 1000 * epochOf now + 1000)
    \<and> epochOf 1500 = 2
    \<and> timeStep (epochOf now) w = Some (epochOf now div w)
    \<and> counterBuffer now w = Inr (bigEndian64 ((epochOf now div w) mod 2 ^ 32))
    \<and> (epochOf now div w < 2 ^ 32
         \<longrightarrow> counterBuffer now w = Inr (bigEndian64 (epochOf now div w)))"
proof -
  have e: "epochOf 1500 = 2"
    by (simp add: epochOf_def)
  have t: "timeStep (epochOf now) w = Some (epochOf now div w)"
    using assms by (simp add: timeStep_def)
  have b: "counterBuffer now w = Inr (bigEndian64 ((epochOf now div w) mod 2 ^ 32))"
    using assms by (rule counterBuffer_mod)
  have "counterBuffer now w = Inr (bigEndian64 (epochOf now div w))"
    if "epochOf now div w < 2 ^ 32"
    using b that by simp
  with epochOf_nearest [of now] e t b show ?thesis
    by blast
qed

theorem counter_serialization_witness:
  "(0::nat) < 30 \<and> epochOf 59000 div 30 < 2 ^ 32
   \<and> counterBuffer 59000 30 = Inr [0, 0, 0, 0, 0, 0, 0, 1]
   \<and> timeStep (epochOf 59000) 30 = Some 1"
proof -
  have w: "(0::nat) < 30" by simp
  have c: "epochOf 59000 div 30 = 1" by (simp add: epochOf_def)
  have lt: "epochOf 59000 div 30 < 2 ^ 32" by (simp add: c)
  have b: "bigEndian64 (epochOf 59000 div 30) = [0, 0, 0, 0, 0, 0, 0, 1]"
    by (simp add: epochOf_def bigEndian64_def)
  from counter_serialization [OF w, of 59000] lt
  have cb: "counterBuffer 59000 30 = Inr (bigEndian64 (epochOf 59000 div 30))"
    and ts: "timeStep (epochOf 59000) 30 = Some (epochOf 59000 div 30)"
    by blast+
  from cb have "counterBuffer 59000 30 = Inr [0, 0, 0, 0, 0, 0, 0, 1]"
    by (simp only: b)
  moreover from ts have "timeStep (epochOf 59000) 30 = Some 1"
    by (simp only: c)
  ultimately show ?thesis
    using w lt by blast
qed

text \<open>
  Claim C6, as it is stated, fails: with a window of 1 second and the clock at
  \<open>2^32\<close> seconds the counter is \<open>2^32\<close>, whose 64-bit big-endian form has the byte 1
  in its high half, and the buffer is all zero.
\<close>

theorem counter_serialization_counterexample:
  "epochOf 4294967296000 div 1 = 4294967296
   \<and> counterBuffer 4294967296000 1 = Inr [0, 0, 0, 0, 0, 0, 0, 0]
   \<and> bigEndian64 (epochOf 4294967296000 div 1) = [0, 0, 0, 1, 0, 0, 0, 0]
   \<and> counterBuffer 4294967296000 1 \<noteq> Inr (bigEndian64 (epochOf 4294967296000 div 1))"
  by (simp add: counterBuffer_eq timeStep_def toUint32_def epochOf_def bigEndian64_def)

lemma counterBuffer_total: "\<exists>buffer. counterBuffer now w = Inr buffer \<and> length buffer = 8"
  by (simp add: counterBuffer_eq Let_def)

lemma counter_59: "counterBuffer 59000 30 = Inr [0, 0, 0, 0, 0, 0, 0, 1]"
  by (simp add: counterBuffer_eq timeStep_def toUint32_def epochOf_def)

lemma counter_1111111109: "counterBuffer 1111111109000 30 = Inr [0, 0, 0, 0, 2, 0x35, 0x23, 0xEC]"
  by (simp add: counterBuffer_eq timeStep_def toUint32_def epochOf_def)

subsection \<open>The time that remains\<close>

lemma epochOf_roundedSeconds: "epochOf now = roundedSeconds now"
proof -
  define q where "q = now div 1000"
  define r where "r = now mod 1000"
  have n: "now = q * 1000 + r" and r: "r < 1000"
    by (simp_all add: q_def r_def)
  have e: "epochOf now = (q * 1000 + (r + 500)) div 1000"
    by (simp add: epochOf_def n add.assoc)
  have s: "roundedSeconds now = (if r < 500 then q else q + 1)"
    by (simp add: roundedSeconds_def q_def r_def)
  show ?thesis
  proof (cases "r < 500")
    case True
    then have "(q * 1000 + (r + 500)) div 1000 = q"
      by simp
    with True e s show ?thesis
      by simp
  next
    case False
    with r have "r + 500 = 1000 + (r - 500)" and "r - 500 < 1000"
      by simp_all
    then have "(q * 1000 + (r + 500)) div 1000 = q + 1"
      by simp
    with False e s show ?thesis
      by simp
  qed
qed

lemma roundedSeconds_nearest:
  "1000 * roundedSeconds now \<le> now + 500 \<and> now + 500 < 1000 * roundedSeconds now + 1000"
  using epochOf_nearest [of now] by (simp only: epochOf_roundedSeconds)

text \<open>
  Claim C5. For a window of at least one second and every clock reading,
  \<^verbatim>\<open>getTimeRemaining\<close> is the window less the remainder, by the window, of the clock in
  seconds rounded to the nearest whole second (a half going up); it is at least 1 and at
  most the window, and it is the whole window, never 0, when the remainder is 0.
\<close>

theorem getTimeRemaining_range:
  assumes "0 < w"
  shows "getTimeRemaining now w = Some (int w - int (roundedSeconds now mod w))
    \<and> (1000 * roundedSeconds now \<le> now + 500 \<and> now + 500 < 1000 * roundedSeconds now + 1000)
    \<and> 1 \<le> int w - int (roundedSeconds now mod w)
    \<and> int w - int (roundedSeconds now mod w) \<le> int w
    \<and> (roundedSeconds now mod w = 0 \<longrightarrow> getTimeRemaining now w = Some (int w))"
proof -
  have r: "getTimeRemaining now w = Some (int w - int (roundedSeconds now mod w))"
    using assms
    by (simp add: getTimeRemaining_def Let_def jsRem_nonneg zmod_int epochOf_roundedSeconds)
  have "roundedSeconds now mod w < w"
    using assms by simp
  then have lo: "1 \<le> int w - int (roundedSeconds now mod w)"
    by linarith
  have hi: "int w - int (roundedSeconds now mod w) \<le> int w"
    by simp
  have "getTimeRemaining now w = Some (int w)" if "roundedSeconds now mod w = 0"
    using r that by simp
  with r lo hi roundedSeconds_nearest [of now] show ?thesis
    by blast
qed

text \<open>
  At 30 s the remainder is 0 and the result is 30; at 29.499 s the clock rounds to 29 and
  the result is 1; at 29.5 s it rounds to 30 and the result is 30; at 44 s the result is 16.
\<close>

theorem getTimeRemaining_range_witness:
  "(0::nat) < 30
   \<and> roundedSeconds 30000 = 30 \<and> roundedSeconds 30000 mod 30 = 0
   \<and> getTimeRemaining 30000 30 = Some 30
   \<and> roundedSeconds 29499 = 29 \<and> getTimeRemaining 29499 30 = Some 1
   \<and> roundedSeconds 29500 = 30 \<and> getTimeRemaining 29500 30 = Some 30
   \<and> roundedSeconds 44000 = 44 \<and> getTimeRemaining 44000 30 = Some 16"
proof -
  have w: "(0::nat) < 30" by simp
  have a: "roundedSeconds 30000 = 30" and b: "roundedSeconds 29499 = 29"
    and c: "roundedSeconds 29500 = 30" and d: "roundedSeconds 44000 = 44"
    by (simp_all add: roundedSeconds_def)
  have m: "roundedSeconds 30000 mod 30 = 0"
    by (simp add: a)
  from getTimeRemaining_range [OF w, of 30000] m
  have "getTimeRemaining 30000 30 = Some (int 30)"
    by blast
  then have ra: "getTimeRemaining 30000 30 = Some 30"
    by simp
  from getTimeRemaining_range [OF w, of 29499]
  have "getTimeRemaining 29499 30 = Some (int 30 - int (roundedSeconds 29499 mod 30))"
    by blast
  then have rb: "getTimeRemaining 29499 30 = Some 1"
    by (simp add: b)
  from getTimeRemaining_range [OF w, of 29500]
  have "getTimeRemaining 29500 30 = Some (int 30 - int (roundedSeconds 29500 mod 30))"
    by blast
  then have rc: "getTimeRemaining 29500 30 = Some 30"
    by (simp add: c)
  from getTimeRemaining_range [OF w, of 44000]
  have "getTimeRemaining 44000 30 = Some (int 30 - int (roundedSeconds 44000 mod 30))"
    by blast
  then have rd: "getTimeRemaining 44000 30 = Some 16"
    by (simp add: d)
  from w a b c d m ra rb rc rd show ?thesis
    by blast
qed

subsection \<open>Truncation and formatting\<close>

lemma truncBinary_msb: "\<not> bit (truncBinary h) 31"
  unfolding truncBinary_def Let_def mask7_int32 mask8_int32 
  by (simp add: bit_simps)

lemma truncBinary_range: "0 \<le> sint (truncBinary h) \<and> sint (truncBinary h) < 2 ^ 31"
  using sint_nonneg_of_bit [OF truncBinary_msb, of h] sint_lt [of "truncBinary h"] by simp

lemma formatCode_nonneg:
  "0 \<le> sint w \<Longrightarrow> formatCode w = padStart 6 CHR ''0'' (natToString (nat (sint w mod 1000000)))"
proof -
  assume "0 \<le> sint w"
  moreover have "\<not> sint w mod 1000000 < 0" by simp
  ultimately show ?thesis
    by (simp add: formatCode_def Let_def jsRem_nonneg numberToString_def)
qed

lemma formatCode_eq:
  "formatCode (truncBinary h) = padStart 6 CHR ''0'' (natToString (nat (sint (truncBinary h)) mod 1000000))"
proof -
  have "0 \<le> sint (truncBinary h)" using truncBinary_range by blast
  moreover have "\<not> sint (truncBinary h) mod 1000000 < 0" by simp
  ultimately show ?thesis
    by (simp add: formatCode_def Let_def jsRem_nonneg numberToString_def nat_mod_distrib)
qed

lemma formatCode_shape:
  "length (formatCode (truncBinary h)) = 6 \<and> (\<forall>c\<in>set (formatCode (truncBinary h)). isDigit c)
   \<and> int (decimalValue (formatCode (truncBinary h))) = sint (truncBinary h) mod 1000000"
proof -
  define n where "n = nat (sint (truncBinary h)) mod 1000000"
  have n: "n < 1000000" by (simp add: n_def)
  have "0 \<le> sint (truncBinary h)" using truncBinary_range by blast
  then have "int n = sint (truncBinary h) mod 1000000"
    by (simp add: n_def zmod_int)
  with padStart6 [OF n] show ?thesis
    by (simp add: formatCode_eq n_def [symmetric])
qed

lemma at_in_range: "i < length xs \<Longrightarrow> at xs (int i) = Some (xs ! i)"
  by (simp add: at_def)

lemma truncOffset20:
  assumes "length h = 20"
  shows "uint (truncOffset h) = int (dtOffset h)" and "dtOffset h \<le> 15"
proof -
  have "truncOffset h = ucast (h ! 19 AND 0xf)"
    using assms at_in_range [of 19 h] by (simp add: truncOffset_def toInt32_def ucast_and_f)
  then show "uint (truncOffset h) = int (dtOffset h)"
    by (simp add: dtOffset_def uint_ucast_byte)
  have "h ! 19 AND 0xf \<le> 0xf" by (rule word_and_le1)
  then show "dtOffset h \<le> 15"
    by (simp add: dtOffset_def word_le_nat_alt)
qed

lemma truncBinary20:
  assumes "length h = 20"
  shows "sint (truncBinary h) = dtBinary h"
proof -
  define k where "k = dtOffset h"
  have k: "k \<le> 15" and o: "uint (truncOffset h) = int k"
    using truncOffset20 [OF assms] by (simp_all add: k_def)
  have r: "at h (int k) = Some (h ! k)" "at h (int k + 1) = Some (h ! (k + 1))"
    "at h (int k + 2) = Some (h ! (k + 2))" "at h (int k + 3) = Some (h ! (k + 3))"
    using k assms at_in_range [of k h] at_in_range [of "k + 1" h] at_in_range [of "k + 2" h]
      at_in_range [of "k + 3" h]
    by (simp_all add: add.commute)
  have "truncBinary h = push_bit 24 (ucast (h ! k AND 0x7f)) OR push_bit 16 (ucast (h ! (k + 1)))
      OR push_bit 8 (ucast (h ! (k + 2))) OR ucast (h ! (k + 3))"
    unfolding truncBinary_def Let_def o r toInt32_def option.case ucast_and_ff ucast_and_7f
    by (rule refl)
  then have "uint (truncBinary h) = dtBinary h"
    unfolding dtBinary_def Let_def k_def [symmetric]
    by (simp only: uint_or uint_push_ucast uint_ucast_byte)
  then show ?thesis
    using sint_eq_uint_of_bit [OF truncBinary_msb, of h] by simp
qed

lemma binary_1:
  "truncBinary [0x75, 0xA4, 0x8A, 0x19, 0xD4, 0xCB, 0xE1, 0x00, 0x64, 0x4E,
          0x8A, 0xC1, 0x39, 0x7E, 0xEA, 0x74, 0x7A, 0x2D, 0x33, 0xAB] = 0x41397EEA"
  by code_simp

lemma binary_37037036:
  "truncBinary [0x27, 0x8C, 0x02, 0xE5, 0x36, 0x10, 0xF8, 0x4C, 0x40, 0xBD,
          0x91, 0x35, 0xAC, 0xD4, 0x10, 0x10, 0x12, 0x41, 0x0A, 0x14] = 0x3610F84C"
  by code_simp

lemma code_1: "formatCode 0x41397EEA = ''287082''"
proof -
  have s: "sint (0x41397EEA :: int32) = 1094287082" by simp
  have "formatCode 0x41397EEA = padStart 6 CHR ''0'' (natToString (nat (sint (0x41397EEA :: int32) mod 1000000)))"
    by (rule formatCode_nonneg) (simp add: s)
  also have "nat (sint (0x41397EEA :: int32) mod 1000000) = 287082"
    by (simp add: s)
  finally show ?thesis
    by (simp add: natToString_287082 padStart_def)
qed

lemma code_37037036: "formatCode 0x3610F84C = ''081804''"
proof -
  have s: "sint (0x3610F84C :: int32) = 907081804" by simp
  have "formatCode 0x3610F84C = padStart 6 CHR ''0'' (natToString (nat (sint (0x3610F84C :: int32) mod 1000000)))"
    by (rule formatCode_nonneg) (simp add: s)
  also have "nat (sint (0x3610F84C :: int32) mod 1000000) = 81804"
    by (simp add: s)
  finally show ?thesis
    by (simp add: natToString_81804 padStart_def)
qed

text \<open>
  Claim C10. For a digest of 20 bytes the offset is at most 15, the read of the last byte
  and the four reads from the offset on are inside the digest, and the 32-bit value that
  they make is a number from 0 up to \<open>2^31 - 1\<close>.
\<close>

theorem truncation_in_bounds:
  assumes "length digest = 20"
  shows "uint (truncOffset digest) \<le> 15
    \<and> at digest (int (length digest) - 1) = Some (digest ! 19)
    \<and> at digest (uint (truncOffset digest)) = Some (digest ! nat (uint (truncOffset digest)))
    \<and> at digest (uint (truncOffset digest) + 1) = Some (digest ! nat (uint (truncOffset digest) + 1))
    \<and> at digest (uint (truncOffset digest) + 2) = Some (digest ! nat (uint (truncOffset digest) + 2))
    \<and> at digest (uint (truncOffset digest) + 3) = Some (digest ! nat (uint (truncOffset digest) + 3))
    \<and> uint (truncOffset digest) + 3 < int (length digest)
    \<and> 0 \<le> sint (truncBinary digest) \<and> sint (truncBinary digest) < 2 ^ 31"
proof -
  have o: "uint (truncOffset digest) = int (dtOffset digest)" and k: "dtOffset digest \<le> 15"
    using truncOffset20 [OF assms] by simp_all
  have "at digest (int (dtOffset digest) + int j) = Some (digest ! nat (int (dtOffset digest) + int j))"
    if "j \<le> 3" for j
    using that k assms by (simp add: at_def)
  from this [of 0] this [of 1] this [of 2] this [of 3]
  have r: "at digest (uint (truncOffset digest)) = Some (digest ! nat (uint (truncOffset digest)))"
    "at digest (uint (truncOffset digest) + 1) = Some (digest ! nat (uint (truncOffset digest) + 1))"
    "at digest (uint (truncOffset digest) + 2) = Some (digest ! nat (uint (truncOffset digest) + 2))"
    "at digest (uint (truncOffset digest) + 3) = Some (digest ! nat (uint (truncOffset digest) + 3))"
    by (simp_all add: o)
  have l: "at digest (int (length digest) - 1) = Some (digest ! 19)"
    using assms by (simp add: at_def)
  have b: "uint (truncOffset digest) \<le> 15" "uint (truncOffset digest) + 3 < int (length digest)"
    using k assms by (simp_all add: o)
  from r l b truncBinary_range [of digest] show ?thesis
    by blast
qed

theorem truncation_in_bounds_witness:
  "length [0x75, 0xA4, 0x8A, 0x19, 0xD4, 0xCB, 0xE1, 0x00, 0x64, 0x4E,
           0x8A, 0xC1, 0x39, 0x7E, 0xEA, 0x74, 0x7A, 0x2D, 0x33, 0xAB :: byte] = 20
   \<and> truncOffset [0x75, 0xA4, 0x8A, 0x19, 0xD4, 0xCB, 0xE1, 0x00, 0x64, 0x4E,
           0x8A, 0xC1, 0x39, 0x7E, 0xEA, 0x74, 0x7A, 0x2D, 0x33, 0xAB] = 11
   \<and> sint (truncBinary [0x75, 0xA4, 0x8A, 0x19, 0xD4, 0xCB, 0xE1, 0x00, 0x64, 0x4E,
           0x8A, 0xC1, 0x39, 0x7E, 0xEA, 0x74, 0x7A, 0x2D, 0x33, 0xAB]) = 1094287082
   \<and> (0 :: int) \<le> 1094287082 \<and> (1094287082 :: int) < 2 ^ 31"
proof -
  let ?d = "[0x75, 0xA4, 0x8A, 0x19, 0xD4, 0xCB, 0xE1, 0x00, 0x64, 0x4E,
           0x8A, 0xC1, 0x39, 0x7E, 0xEA, 0x74, 0x7A, 0x2D, 0x33, 0xAB] :: byte list"
  have l: "length ?d = 20" by simp
  have o: "truncOffset ?d = 11" by code_simp
  have s: "sint (truncBinary ?d) = 1094287082" by (simp add: binary_1)
  from truncation_in_bounds [OF l] have "0 \<le> sint (truncBinary ?d) \<and> sint (truncBinary ?d) < 2 ^ 31"
    by blast
  then have "(0 :: int) \<le> 1094287082 \<and> (1094287082 :: int) < 2 ^ 31"
    by (simp only: s)
  with l o s show ?thesis by blast
qed

subsection \<open>The platform digest\<close>

lemma rfcKey_decoded: "base32ToBuffer rfcSecret = rfcKey"
  by code_simp

lemma rfcKey_nonempty: "base32ToBuffer rfcSecret \<noteq> []"
  by (simp add: rfcKey_decoded rfcKey_def)

lemma rfcKey_ints:
  "map uint rfcKey = [49, 50, 51, 52, 53, 54, 55, 56, 57, 48, 49, 50, 51, 52, 53, 54, 55, 56, 57, 48]"
  by (simp add: rfcKey_def)

lemma rfcKey_not_Nil: "rfcKey \<noteq> []"
  by (simp add: rfcKey_def)

lemma webCrypto_sign:
  "key \<noteq> [] \<Longrightarrow> hmacSha1 webCrypto key data = Inr (map of_int (hmac_sha1 (map uint key) (map uint data)))"
  by (simp add: hmacSha1_def webCrypto_def)

lemma hmac_1:
  "hmac_sha1 [49, 50, 51, 52, 53, 54, 55, 56, 57, 48, 49, 50, 51, 52, 53, 54, 55, 56, 57, 48]
     [0, 0, 0, 0, 0, 0, 0, 1] =
   [0x75, 0xA4, 0x8A, 0x19, 0xD4, 0xCB, 0xE1, 0x00, 0x64, 0x4E,
    0x8A, 0xC1, 0x39, 0x7E, 0xEA, 0x74, 0x7A, 0x2D, 0x33, 0xAB]"
  by code_simp

lemma hmac_37037036:
  "hmac_sha1 [49, 50, 51, 52, 53, 54, 55, 56, 57, 48, 49, 50, 51, 52, 53, 54, 55, 56, 57, 48]
     [0, 0, 0, 0, 2, 0x35, 0x23, 0xEC] =
   [0x27, 0x8C, 0x02, 0xE5, 0x36, 0x10, 0xF8, 0x4C, 0x40, 0xBD,
    0x91, 0x35, 0xAC, 0xD4, 0x10, 0x10, 0x12, 0x41, 0x0A, 0x14]"
  by code_simp

lemma digest_1:
  "hmacSha1 webCrypto rfcKey [0, 0, 0, 0, 0, 0, 0, 1] =
     Inr [0x75, 0xA4, 0x8A, 0x19, 0xD4, 0xCB, 0xE1, 0x00, 0x64, 0x4E,
          0x8A, 0xC1, 0x39, 0x7E, 0xEA, 0x74, 0x7A, 0x2D, 0x33, 0xAB]"
proof -
  have "map uint [0, 0, 0, 0, 0, 0, 0, 1 :: byte] = [0, 0, 0, 0, 0, 0, 0, 1]"
    by simp
  then show ?thesis
    unfolding webCrypto_sign [OF rfcKey_not_Nil] rfcKey_ints
    by (simp add: hmac_1)
qed

lemma digest_37037036:
  "hmacSha1 webCrypto rfcKey [0, 0, 0, 0, 2, 0x35, 0x23, 0xEC] =
     Inr [0x27, 0x8C, 0x02, 0xE5, 0x36, 0x10, 0xF8, 0x4C, 0x40, 0xBD,
          0x91, 0x35, 0xAC, 0xD4, 0x10, 0x10, 0x12, 0x41, 0x0A, 0x14]"
proof -
  have "map uint [0, 0, 0, 0, 2, 0x35, 0x23, 0xEC :: byte] = [0, 0, 0, 0, 2, 0x35, 0x23, 0xEC]"
    by simp
  then show ?thesis
    unfolding webCrypto_sign [OF rfcKey_not_Nil] rfcKey_ints
    by (simp add: hmac_37037036)
qed

subsection \<open>The three outcomes of generateTOTP\<close>

lemma generateTOTP_unfold:
  "generateTOTP crypto now secret w =
     (if base32ToBuffer secret = [] then Inr ''INVALID''
      else case counterBuffer now w of
             Inl e \<Rightarrow> Inr ''ERROR''
           | Inr buffer \<Rightarrow>
               (case hmacSha1 crypto (base32ToBuffer secret) buffer of
                  Inl e \<Rightarrow> Inr ''ERROR''
                | Inr hmac \<Rightarrow> Inr (formatCode (truncBinary hmac))))"
  by (simp add: generateTOTP_def generateTOTP_try_def Let_def split: sum.splits)

lemma generateTOTP_empty: "base32ToBuffer secret = [] \<Longrightarrow> generateTOTP crypto now secret w = Inr ''INVALID''"
  by (simp add: generateTOTP_unfold)

lemma generateTOTP_failure:
  "base32ToBuffer secret \<noteq> [] \<Longrightarrow> counterBuffer now w = Inr buffer
   \<Longrightarrow> hmacSha1 crypto (base32ToBuffer secret) buffer = Inl e
   \<Longrightarrow> generateTOTP crypto now secret w = Inr ''ERROR''"
  by (simp add: generateTOTP_unfold)

lemma generateTOTP_code:
  "base32ToBuffer secret \<noteq> [] \<Longrightarrow> counterBuffer now w = Inr buffer
   \<Longrightarrow> hmacSha1 crypto (base32ToBuffer secret) buffer = Inr digest
   \<Longrightarrow> generateTOTP crypto now secret w = Inr (formatCode (truncBinary digest))"
  by (simp add: generateTOTP_unfold)

lemma generateTOTP_code_shape:
  assumes "base32ToBuffer secret \<noteq> []"
    and "counterBuffer now w = Inr buffer"
    and "hmacSha1 crypto (base32ToBuffer secret) buffer = Inr digest"
  shows "\<exists>code. generateTOTP crypto now secret w = Inr code \<and> length code = 6
    \<and> (\<forall>c\<in>set code. isDigit c) \<and> code \<noteq> ''INVALID'' \<and> code \<noteq> ''ERROR''"
  using generateTOTP_code [OF assms] formatCode_shape [of digest]
    digits_not_sentinel [of "formatCode (truncBinary digest)"]
  by blast

lemma generateTOTP_INVALID_iff:
  "generateTOTP crypto now secret w = Inr ''INVALID'' \<longleftrightarrow> base32ToBuffer secret = []"
proof (cases "base32ToBuffer secret = []")
  case True
  then show ?thesis by (simp add: generateTOTP_empty)
next
  case False
  obtain buffer where b: "counterBuffer now w = Inr buffer"
    using counterBuffer_total by blast
  show ?thesis
  proof (cases "hmacSha1 crypto (base32ToBuffer secret) buffer")
    case (Inl e)
    with False b show ?thesis by (simp add: generateTOTP_failure)
  next
    case (Inr digest)
    with False generateTOTP_code_shape [OF False b Inr] show ?thesis by auto
  qed
qed

lemma generateTOTP_ERROR_iff:
  assumes "counterBuffer now w = Inr buffer"
  shows "generateTOTP crypto now secret w = Inr ''ERROR'' \<longleftrightarrow>
    base32ToBuffer secret \<noteq> [] \<and> (\<exists>e. hmacSha1 crypto (base32ToBuffer secret) buffer = Inl e)"
proof (cases "base32ToBuffer secret = []")
  case True
  then show ?thesis by (simp add: generateTOTP_empty)
next
  case False
  show ?thesis
  proof (cases "hmacSha1 crypto (base32ToBuffer secret) buffer")
    case (Inl e)
    with False assms show ?thesis by (simp add: generateTOTP_failure)
  next
    case (Inr digest)
    with False generateTOTP_code_shape [OF False assms Inr] show ?thesis by auto
  qed
qed

lemma rfc_code_59: "generateTOTP webCrypto 59000 rfcSecret 30 = Inr ''287082''"
  using generateTOTP_code [OF rfcKey_nonempty counter_59, of webCrypto]
  by (simp add: rfcKey_decoded digest_1 binary_1 code_1)

lemma rfc_code_1111111109: "generateTOTP webCrypto 1111111109000 rfcSecret 30 = Inr ''081804''"
  using generateTOTP_code [OF rfcKey_nonempty counter_1111111109, of webCrypto]
  by (simp add: rfcKey_decoded digest_37037036 binary_37037036 code_37037036)

subsection \<open>The decoder\<close>

text \<open>
  What \<^verbatim>\<open>base32ToBuffer\<close> returns, for every string: the bytes that the reference decoder
  emits, followed by zero bytes up to the length that was computed from the cleaned string.
  The 32-bit accumulator of the source loses nothing: a byte is taken from its low 12 bits.
\<close>

lemma length_storeByte: "length (storeByte buffer i v) = length buffer"
  by (simp add: storeByte_def)

lemma length_decodeLoop: "length (decodeLoop cs buffer bits val index) = length buffer"
  by (induction cs arbitrary: buffer bits val index)
     (simp_all add: Let_def length_storeByte split: option.splits)

lemma length_base32ToBuffer: "length (base32ToBuffer str) = (length (cleanStr str) * 5) div 8"
  by (simp add: base32ToBuffer_def Let_def length_decodeLoop)

lemma length_emitted:
  "bits < 8 \<Longrightarrow> length (emitted cs acc bits) = (bits + 5 * length (validChars cs)) div 8"
proof (induction cs arbitrary: acc bits)
  case Nil
  then show ?case by (simp add: validChars_def)
next
  case (Cons c cs)
  show ?case
  proof (cases "indexOf base32Chars c")
    case None
    then show ?thesis by (simp add: Cons validChars_def)
  next
    case (Some v)
    define n where "n = 5 * length (validChars cs)"
    have v: "length (validChars (c # cs)) = Suc (length (validChars cs))"
      using Some by (simp add: validChars_def)
    have s: "Suc ((bits + 5 - 8 + n) div 8) = (bits + 5 + n) div 8" if "8 \<le> bits + 5"
    proof -
      have "bits + 5 + n = (bits + 5 - 8 + n) + 8" using that by simp
      then show ?thesis by (simp only: div_add_self2)
    qed
    show ?thesis
    proof (cases "8 \<le> bits + 5")
      case True
      moreover from Cons.prems have "bits + 5 - 8 < 8" by simp
      ultimately show ?thesis
        using Some s by (simp add: Cons.IH v Let_def n_def)
    next
      case False
      then have "bits + 5 < 8" by simp
      with Some False show ?thesis
        by (simp add: Cons.IH v Let_def)
    qed
  qed
qed

lemma emitted_validChars: "emitted (validChars cs) acc bits = emitted cs acc bits"
  by (induction cs arbitrary: acc bits) (auto simp: validChars_def Let_def split: option.splits)

lemma mask8_int: "(255 :: int) = mask 8"
  by (simp add: mask_eq_exp_minus_1)

lemma emitted_byte:
  "m \<le> 24 \<Longrightarrow>
   (ucast (drop_bit m (of_int a :: int32) AND 255) :: byte) = of_int (drop_bit m a AND 255)"
  unfolding mask8_int32 mask8_int by (rule bit_word_eqI) (auto simp: bit_simps)

lemma next_val: "push_bit 5 (of_int acc :: int32) OR of_nat v = of_int (push_bit 5 acc OR int v)"
  by (simp add: of_int_or_eq push_bit_of_int)

lemma take_update_snoc: "i < length xs \<Longrightarrow> take (Suc i) (xs[i := b]) = take i xs @ [b]"
  by (simp add: take_Suc_conv_app_nth)

lemma decodeLoop_emit:
  "indexOf base32Chars c = Some v \<Longrightarrow> 8 \<le> bits + 5 \<Longrightarrow>
   decodeLoop (c # cs) buffer bits val index =
     decodeLoop cs
       (storeByte buffer index (drop_bit (bits + 5 - 8) (push_bit 5 val OR of_nat v) AND 255))
       (bits + 5 - 8) (push_bit 5 val OR of_nat v) (Suc index)"
  by (simp add: Let_def)

lemma decodeLoop_keep:
  "indexOf base32Chars c = Some v \<Longrightarrow> \<not> 8 \<le> bits + 5 \<Longrightarrow>
   decodeLoop (c # cs) buffer bits val index =
     decodeLoop cs buffer (bits + 5) (push_bit 5 val OR of_nat v) index"
  by (simp add: Let_def)

lemma emitted_emit:
  "indexOf base32Chars c = Some v \<Longrightarrow> 8 \<le> bits + 5 \<Longrightarrow>
   emitted (c # cs) acc bits =
     of_int (drop_bit (bits + 5 - 8) (push_bit 5 acc OR int v) AND 255)
       # emitted cs (push_bit 5 acc OR int v) (bits + 5 - 8)"
  by (simp add: Let_def)

lemma emitted_keep:
  "indexOf base32Chars c = Some v \<Longrightarrow> \<not> 8 \<le> bits + 5 \<Longrightarrow>
   emitted (c # cs) acc bits = emitted cs (push_bit 5 acc OR int v) (bits + 5)"
  by (simp add: Let_def)

lemma decodeLoop_emitted:
  assumes "index + length (emitted cs acc bits) \<le> length buffer"
    and "val = of_int acc" and "bits < 8"
  shows "decodeLoop cs buffer bits val index =
    take index buffer @ emitted cs acc bits @ drop (index + length (emitted cs acc bits)) buffer"
  using assms
proof (induction cs arbitrary: buffer bits val index acc)
  case Nil
  then show ?case by simp
next
  case (Cons c cs)
  show ?case
  proof (cases "indexOf base32Chars c")
    case None
    with Cons show ?thesis by simp
  next
    case (Some v)
    define acc' where "acc' = push_bit 5 acc OR int v"
    define val' where "val' = push_bit 5 val OR (of_nat v :: int32)"
    have val': "val' = of_int acc'"
      using Cons.prems(2) by (simp add: val'_def acc'_def next_val)
    show ?thesis
    proof (cases "8 \<le> bits + 5")
      case True
      define k where "k = bits + 5 - 8"
      define b :: byte where "b = of_int (drop_bit k acc' AND 255)"
      define rest where "rest = emitted cs acc' k"
      have e: "emitted (c # cs) acc bits = b # rest"
        unfolding emitted_emit [OF Some True] b_def rest_def acc'_def k_def by (rule refl)
      have i: "index < length buffer" and l: "Suc index + length rest \<le> length buffer"
        using Cons.prems(1) unfolding e by simp_all
      have k: "k \<le> 24" "k < 8"
        using Cons.prems(3) by (simp_all add: k_def)
      have st: "storeByte buffer index (drop_bit k val' AND 255) = buffer[index := b]"
        unfolding storeByte_def val' b_def emitted_byte [OF k(1)] using i by simp
      have "decodeLoop (c # cs) buffer bits val index
          = decodeLoop cs (buffer[index := b]) k val' (Suc index)"
        unfolding decodeLoop_emit [OF Some True] val'_def [symmetric] k_def [symmetric] st
        by (rule refl)
      also have "\<dots> = take (Suc index) (buffer[index := b]) @ rest
          @ drop (Suc index + length rest) (buffer[index := b])"
        unfolding rest_def
      proof (rule Cons.IH)
        show "Suc index + length (emitted cs acc' k) \<le> length (buffer[index := b])"
          using l by (simp add: rest_def)
        show "val' = of_int acc'" by (rule val')
        show "k < 8" by (rule k(2))
      qed
      also have "\<dots> = take index buffer @ (b # rest) @ drop (index + length (b # rest)) buffer"
        using i by (simp add: take_update_snoc)
      finally show ?thesis by (simp only: e)
    next
      case False
      have e: "emitted (c # cs) acc bits = emitted cs acc' (bits + 5)"
        unfolding emitted_keep [OF Some False] acc'_def by (rule refl)
      have "decodeLoop (c # cs) buffer bits val index = decodeLoop cs buffer (bits + 5) val' index"
        unfolding decodeLoop_keep [OF Some False] val'_def by (rule refl)
      also have "\<dots> = take index buffer @ emitted cs acc' (bits + 5)
          @ drop (index + length (emitted cs acc' (bits + 5))) buffer"
      proof (rule Cons.IH)
        show "index + length (emitted cs acc' (bits + 5)) \<le> length buffer"
          using Cons.prems(1) unfolding e .
        show "val' = of_int acc'" by (rule val')
        show "bits + 5 < 8" using False by simp
      qed
      finally show ?thesis by (simp only: e)
    qed
  qed
qed

lemma padding_not_valid: "indexOf base32Chars CHR ''='' = None"
  by (simp add: base32Chars_def)

lemma space_not_valid: "isSpace c \<Longrightarrow> indexOf base32Chars c = None"
proof -
  assume "isSpace c"
  then consider "c = CHR 0x09" | "c = CHR 0x0A" | "c = CHR 0x0B" | "c = CHR 0x0C"
    | "c = CHR 0x0D" | "c = CHR '' ''"
    by (auto simp: isSpace_def)
  then show ?thesis
    by cases (simp_all add: base32Chars_def)
qed

lemma validChars_removeSpaces: "validChars (removeSpaces s) = validChars s"
  unfolding validChars_def removeSpaces_def filter_filter
  by (rule filter_cong) (auto dest: space_not_valid)

lemma validChars_append: "validChars (xs @ ys) = validChars xs @ validChars ys"
  by (simp add: validChars_def)

lemma validChars_padding: "\<forall>c\<in>set s. c = CHR ''='' \<Longrightarrow> validChars s = []"
  by (induction s) (simp_all add: validChars_def padding_not_valid)

lemma stripPadding_decompose:
  "\<exists>p. s = stripPadding s @ p \<and> (\<forall>c\<in>set p. c = CHR ''='')"
proof -
  let ?P = "\<lambda>c. c = CHR ''=''"
  have "rev s = takeWhile ?P (rev s) @ dropWhile ?P (rev s)"
    by simp
  then have "s = rev (dropWhile ?P (rev s)) @ rev (takeWhile ?P (rev s))"
    by (metis rev_append rev_rev_ident)
  moreover have "\<forall>c\<in>set (rev (takeWhile ?P (rev s))). ?P c"
    by (auto dest: set_takeWhileD)
  ultimately show ?thesis
    unfolding stripPadding_def by blast
qed

lemma validChars_stripPadding: "validChars (stripPadding s) = validChars s"
proof -
  obtain p where p: "s = stripPadding s @ p" "\<forall>c\<in>set p. c = CHR ''=''"
    using stripPadding_decompose by blast
  have "validChars s = validChars (stripPadding s @ p)"
    using p(1) by simp
  then show ?thesis
    by (simp add: validChars_append validChars_padding [OF p(2)])
qed

lemma validChars_cleanStr: "validChars (cleanStr str) = validChars (normalized str)"
  by (simp add: cleanStr_def normalized_def validChars_removeSpaces validChars_stripPadding)

lemma referenceDecode_cleanStr: "referenceDecode str = emitted (cleanStr str) 0 0"
proof -
  have "emitted (normalized str) 0 0 = emitted (validChars (normalized str)) 0 0"
    by (simp only: emitted_validChars)
  also have "\<dots> = emitted (validChars (cleanStr str)) 0 0"
    by (simp only: validChars_cleanStr)
  also have "\<dots> = emitted (cleanStr str) 0 0"
    by (simp only: emitted_validChars)
  finally show ?thesis
    by (simp add: referenceDecode_def)
qed

lemma length_referenceDecode:
  "length (referenceDecode str) = (5 * length (validChars (cleanStr str))) div 8"
  by (simp add: referenceDecode_cleanStr length_emitted)

lemma length_validChars: "length (validChars s) \<le> length s"
  by (simp add: validChars_def)

lemma base32ToBuffer_padded:
  "base32ToBuffer str =
     referenceDecode str
     @ replicate ((length (cleanStr str) * 5) div 8 - length (referenceDecode str)) 0"
proof -
  define h where "h = (length (cleanStr str) * 5) div 8"
  define e where "e = emitted (cleanStr str) 0 0"
  have "5 * length (validChars (cleanStr str)) \<le> length (cleanStr str) * 5"
    using length_validChars [of "cleanStr str"] by simp
  then have le: "length e \<le> h"
    unfolding e_def h_def by (simp add: length_emitted div_le_mono)
  have "decodeLoop (cleanStr str) (replicate h 0) 0 0 0 =
      take 0 (replicate h 0) @ emitted (cleanStr str) 0 0
      @ drop (0 + length (emitted (cleanStr str) 0 0)) (replicate h (0 :: byte))"
    by (rule decodeLoop_emitted) (use le in \<open>simp_all add: e_def\<close>)
  then have "base32ToBuffer str = e @ replicate (h - length e) 0"
    by (simp add: base32ToBuffer_def Let_def h_def e_def)
  then show ?thesis
    by (simp add: referenceDecode_cleanStr h_def e_def)
qed

lemma base32ToBuffer_all_valid:
  assumes "validChars (cleanStr str) = cleanStr str"
  shows "base32ToBuffer str = referenceDecode str"
proof -
  have "length (referenceDecode str) = (length (cleanStr str) * 5) div 8"
    by (simp add: length_referenceDecode assms mult.commute)
  with base32ToBuffer_padded [of str] show ?thesis
    by simp
qed

lemma base32ToBuffer_empty_iff: "base32ToBuffer str = [] \<longleftrightarrow> length (cleanStr str) \<le> 1"
proof -
  have "base32ToBuffer str = [] \<longleftrightarrow> length (base32ToBuffer str) = 0"
    by simp
  also have "\<dots> \<longleftrightarrow> (length (cleanStr str) * 5) div 8 = 0"
    by (simp only: length_base32ToBuffer)
  also have "\<dots> \<longleftrightarrow> length (cleanStr str) * 5 < 8"
    by (simp add: div_eq_0_iff)
  also have "\<dots> \<longleftrightarrow> length (cleanStr str) \<le> 1"
    by linarith
  finally show ?thesis .
qed

text \<open>
  Claim C1 fails on the program. The eight characters of \<^verbatim>\<open>11111111\<close> are none of them
  in the alphabet, and \<^verbatim>\<open>base32ToBuffer\<close> returns five bytes of zero, not an empty
  array: it returns the whole array that it sized from the length of the cleaned string
  (\<open>length_base32ToBuffer\<close>), whatever the loop stored. So \<^verbatim>\<open>generateTOTP\<close> does
  not answer \<^verbatim>\<open>INVALID\<close> for this secret, on any platform and at any time.
\<close>

theorem base32ToBuffer_no_valid_chars:
  "validChars (normalized ''11111111'') = []
   \<and> base32ToBuffer ''11111111'' = [0, 0, 0, 0, 0]
   \<and> generateTOTP crypto now ''11111111'' w \<noteq> Inr ''INVALID''"
proof -
  have v: "validChars (normalized ''11111111'') = []"
    by code_simp
  have b: "base32ToBuffer ''11111111'' = [0, 0, 0, 0, 0]"
    by code_simp
  then have "base32ToBuffer ''11111111'' \<noteq> []"
    by simp
  then have "generateTOTP crypto now ''11111111'' w \<noteq> Inr ''INVALID''"
    by (simp add: generateTOTP_INVALID_iff)
  with v b show ?thesis by blast
qed

text \<open>
  Claim C4 fails on the program, for the same reason: on \<^verbatim>\<open>JBSW-Y3D\<close> the reference
  decoder emits the four bytes of the seven valid characters, and \<^verbatim>\<open>base32ToBuffer\<close>
  returns five bytes, the last one never stored.
\<close>

theorem base32ToBuffer_reference_divergence:
  "base32ToBuffer ''JBSW-Y3D'' = [72, 101, 108, 108, 0]
   \<and> referenceDecode ''JBSW-Y3D'' = [72, 101, 108, 108]"
  by code_simp

subsection \<open>The validation predicate\<close>

lemma matchPadding_iff: "matchPadding s \<longleftrightarrow> (\<forall>c\<in>set s. c = CHR ''='')"
  by (induction s) auto

lemma not_inClass_eq: "\<not> inClass CHR ''=''"
  by (simp add: inClass_def toUpperCase_char_def)

text \<open>The matcher accepts the language of the regular expression: one or more
  characters of the class, then any number of \<^verbatim>\<open>=\<close>.\<close>

lemma matchClassStar_iff:
  "matchClassStar s \<longleftrightarrow>
     (\<exists>a b. s = a @ b \<and> (\<forall>c\<in>set a. inClass c) \<and> (\<forall>c\<in>set b. c = CHR ''=''))"
proof (induction s)
  case Nil
  then show ?case by simp
next
  case (Cons c cs)
  let ?split = "\<lambda>s a b. s = a @ b \<and> (\<forall>x\<in>set a. inClass x) \<and> (\<forall>x\<in>set b. x = CHR ''='')"
  show ?case
  proof (cases "inClass c")
    case True
    have "(\<exists>a b. ?split (c # cs) a b) \<longleftrightarrow> (\<exists>a b. ?split cs a b)"
    proof
      assume "\<exists>a b. ?split (c # cs) a b"
      then obtain a b where ab: "c # cs = a @ b" "\<forall>x\<in>set a. inClass x" "\<forall>x\<in>set b. x = CHR ''=''"
        by blast
      show "\<exists>a b. ?split cs a b"
      proof (cases a)
        case Nil
        with ab(1) have "b = c # cs" by simp
        with ab(3) have "c = CHR ''=''" by simp
        with True not_inClass_eq show ?thesis by simp
      next
        case (Cons x a')
        with ab(1) have "cs = a' @ b" by simp
        moreover from Cons ab(2) have "\<forall>x\<in>set a'. inClass x" by simp
        ultimately show ?thesis using ab(3) by blast
      qed
    next
      assume "\<exists>a b. ?split cs a b"
      then obtain a b where ab: "cs = a @ b" "\<forall>x\<in>set a. inClass x" "\<forall>x\<in>set b. x = CHR ''=''"
        by blast
      from ab(1) have "c # cs = (c # a) @ b" by simp
      moreover from ab(2) True have "\<forall>x\<in>set (c # a). inClass x" by simp
      ultimately show "\<exists>a b. ?split (c # cs) a b" using ab(3) by blast
    qed
    moreover from True have "matchClassStar (c # cs) = matchClassStar cs" by simp
    ultimately show ?thesis using Cons.IH by simp
  next
    case False
    have "(\<exists>a b. ?split (c # cs) a b) \<longleftrightarrow> (\<forall>x\<in>set (c # cs). x = CHR ''='')"
    proof
      assume "\<exists>a b. ?split (c # cs) a b"
      then obtain a b where ab: "c # cs = a @ b" "\<forall>x\<in>set a. inClass x" "\<forall>x\<in>set b. x = CHR ''=''"
        by blast
      show "\<forall>x\<in>set (c # cs). x = CHR ''=''"
      proof (cases a)
        case Nil
        with ab(1) have "b = c # cs" by simp
        with ab(3) show ?thesis by simp
      next
        case (Cons x a')
        with ab(1) have "x = c" by simp
        with Cons ab(2) have "inClass c" by simp
        with False show ?thesis by simp
      qed
    next
      assume r: "\<forall>x\<in>set (c # cs). x = CHR ''=''"
      have "c # cs = [] @ (c # cs)" by simp
      moreover have "\<forall>x\<in>set []. inClass x" by simp
      ultimately show "\<exists>a b. ?split (c # cs) a b" using r by blast
    qed
    moreover from False have "matchClassStar (c # cs) = matchPadding (c # cs)" by simp
    ultimately show ?thesis by (simp only: matchPadding_iff)
  qed
qed

lemma regexTest_iff:
  "regexTest s \<longleftrightarrow>
     (\<exists>a b. s = a @ b \<and> a \<noteq> [] \<and> (\<forall>c\<in>set a. inClass c) \<and> (\<forall>c\<in>set b. c = CHR ''=''))"
proof (cases s)
  case Nil
  then show ?thesis by simp
next
  case (Cons c cs)
  show ?thesis
  proof
    assume "regexTest s"
    with Cons have c: "inClass c" and "matchClassStar cs" by simp_all
    then obtain a b where ab: "cs = a @ b" "\<forall>x\<in>set a. inClass x" "\<forall>x\<in>set b. x = CHR ''=''"
      unfolding matchClassStar_iff by blast
    from ab(1) Cons have "s = (c # a) @ b" by simp
    moreover have "c # a \<noteq> []" by simp
    moreover from ab(2) c have "\<forall>x\<in>set (c # a). inClass x" by simp
    ultimately show "\<exists>a b. s = a @ b \<and> a \<noteq> [] \<and> (\<forall>c\<in>set a. inClass c) \<and> (\<forall>c\<in>set b. c = CHR ''='')"
      using ab(3) by blast
  next
    assume "\<exists>a b. s = a @ b \<and> a \<noteq> [] \<and> (\<forall>c\<in>set a. inClass c) \<and> (\<forall>c\<in>set b. c = CHR ''='')"
    then obtain a b where ab: "s = a @ b" "a \<noteq> []" "\<forall>x\<in>set a. inClass x" "\<forall>x\<in>set b. x = CHR ''=''"
      by blast
    from ab(2) obtain x a' where a: "a = x # a'"
      by (cases a) simp_all
    from ab(1) Cons a have xc: "x = c" and cs: "cs = a' @ b" by simp_all
    from a ab(3) xc have c: "inClass c" and a': "\<forall>x\<in>set a'. inClass x" by simp_all
    from cs a' ab(4) have "matchClassStar cs"
      unfolding matchClassStar_iff by blast
    with Cons c show "regexTest s" by simp
  qed
qed

lemma stripPadding_Cons:
  "stripPadding (c # cs) = (if c = CHR ''='' \<and> (\<forall>x\<in>set cs. x = CHR ''='') then [] else c # stripPadding cs)"
  by (auto simp: stripPadding_def dropWhile_append)

lemma stripPadding_all: "(\<forall>x\<in>set cs. x = CHR ''='') \<Longrightarrow> stripPadding cs = []"
  by (simp add: stripPadding_def)

lemma matchClassStar_strip: "matchClassStar s \<Longrightarrow> \<forall>c\<in>set (stripPadding s). inClass c"
  by (induction s) (auto simp: stripPadding_Cons matchPadding_iff stripPadding_all split: if_splits)

lemma regexTest_strip: "regexTest s \<Longrightarrow> \<forall>c\<in>set (stripPadding s). inClass c"
  by (cases s) (auto simp: stripPadding_Cons dest: matchClassStar_strip)

lemma isValid_strict:
  "isValidBase32 (Some s) \<Longrightarrow> \<forall>c\<in>set (stripPadding (removeSpaces s)). inClass c"
  by (auto simp: isValidBase32_def split: if_splits dest: regexTest_strip)

lemma indexOf_None_iff: "indexOf xs c = None \<longleftrightarrow> c \<notin> set xs"
  by (induction xs) (auto split: option.splits)

lemma inClass_alphabet: "inClass c \<longleftrightarrow> indexOf base32Chars (toUpperCase_char c) \<noteq> None"
  by (simp add: inClass_def indexOf_None_iff base32Chars_def)

text \<open>
  Claim C7. \<^verbatim>\<open>isValidBase32\<close> rejects \<^verbatim>\<open>null\<close>, the empty string, and every string
  that, without its white space and its trailing \<^verbatim>\<open>=\<close>, has a character outside the
  alphabet in either case; the class of the predicate is the alphabet of the decoder after
  its upper-casing. It rejects \<^verbatim>\<open>JBSW-Y3DP\<close>, which \<^verbatim>\<open>base32ToBuffer\<close> decodes to the
  five bytes of \<^verbatim>\<open>JBSWY3DP\<close>, skipping the hyphen.
\<close>

theorem isValidBase32_stricter:
  "\<not> isValidBase32 None \<and> \<not> isValidBase32 (Some [])
   \<and> (\<forall>s. (\<exists>c\<in>set (stripPadding (removeSpaces s)). \<not> inClass c) \<longrightarrow> \<not> isValidBase32 (Some s))
   \<and> (\<forall>c. inClass c \<longleftrightarrow> indexOf base32Chars (toUpperCase_char c) \<noteq> None)
   \<and> \<not> isValidBase32 (Some ''JBSW-Y3DP'')
   \<and> base32ToBuffer ''JBSW-Y3DP'' = [72, 101, 108, 108, 111]
   \<and> base32ToBuffer ''JBSWY3DP'' = [72, 101, 108, 108, 111]"
proof -
  have a: "\<not> isValidBase32 None" "\<not> isValidBase32 (Some [])"
    by (simp_all add: isValidBase32_def)
  have b: "\<not> isValidBase32 (Some s)"
    if "\<exists>c\<in>set (stripPadding (removeSpaces s)). \<not> inClass c" for s
    using that isValid_strict [of s] by blast
  have c: "\<not> isValidBase32 (Some ''JBSW-Y3DP'')"
    by code_simp
  have d: "base32ToBuffer ''JBSW-Y3DP'' = [72, 101, 108, 108, 111]"
    by code_simp
  have e: "base32ToBuffer ''JBSWY3DP'' = [72, 101, 108, 108, 111]"
    by code_simp
  from a b c d e inClass_alphabet show ?thesis by blast
qed

theorem isValidBase32_stricter_witness:
  "CHR ''-'' \<in> set (stripPadding (removeSpaces ''JBSW-Y3DP'')) \<and> \<not> inClass CHR ''-''
   \<and> \<not> isValidBase32 (Some ''JBSW-Y3DP'')"
proof -
  have m: "CHR ''-'' \<in> set (stripPadding (removeSpaces ''JBSW-Y3DP''))"
    by code_simp
  have n: "\<not> inClass CHR ''-''"
    by code_simp
  from isValidBase32_stricter m n have "\<not> isValidBase32 (Some ''JBSW-Y3DP'')"
    by blast
  with m n show ?thesis by blast
qed

subsection \<open>generateTOTP\<close>

text \<open>
  Claim C2. When the secret decodes to a key that is not empty and the platform signs the
  counter with a digest of 20 bytes, \<^verbatim>\<open>generateTOTP\<close> resolves to the dynamic
  truncation of the digest, as the specification computes it on unbounded integers,
  modulo 1000000, written in decimal and padded with \<^verbatim>\<open>0\<close> on the left: exactly 6
  digits, whose value is that number.
\<close>

theorem generateTOTP_truncation:
  assumes "base32ToBuffer secret \<noteq> []"
    and "counterBuffer now w = Inr buffer"
    and "hmacSha1 crypto (base32ToBuffer secret) buffer = Inr digest"
    and "length digest = 20"
  shows "\<exists>code. generateTOTP crypto now secret w = Inr code
    \<and> code = padStart 6 CHR ''0'' (natToString (nat (dtBinary digest mod 1000000)))
    \<and> length code = 6 \<and> (\<forall>c\<in>set code. isDigit c)
    \<and> int (decimalValue code) = dtBinary digest mod 1000000
    \<and> 0 \<le> dtBinary digest \<and> dtBinary digest < 2 ^ 31"
proof -
  have b: "sint (truncBinary digest) = dtBinary digest"
    using assms(4) by (rule truncBinary20)
  have r: "0 \<le> dtBinary digest" "dtBinary digest < 2 ^ 31"
    using truncBinary_range [of digest] by (simp_all add: b)
  have g: "generateTOTP crypto now secret w = Inr (formatCode (truncBinary digest))"
    using assms(1-3) by (rule generateTOTP_code)
  have f: "formatCode (truncBinary digest)
      = padStart 6 CHR ''0'' (natToString (nat (dtBinary digest mod 1000000)))"
    using formatCode_nonneg [of "truncBinary digest"] r(1) by (simp add: b)
  from formatCode_shape [of digest] g f r show ?thesis
    by (simp add: b)
qed

theorem generateTOTP_truncation_witness:
  "base32ToBuffer rfcSecret \<noteq> []
   \<and> counterBuffer 1111111109000 30 = Inr [0, 0, 0, 0, 2, 0x35, 0x23, 0xEC]
   \<and> hmacSha1 webCrypto (base32ToBuffer rfcSecret) [0, 0, 0, 0, 2, 0x35, 0x23, 0xEC] =
       Inr [0x27, 0x8C, 0x02, 0xE5, 0x36, 0x10, 0xF8, 0x4C, 0x40, 0xBD,
            0x91, 0x35, 0xAC, 0xD4, 0x10, 0x10, 0x12, 0x41, 0x0A, 0x14]
   \<and> dtBinary [0x27, 0x8C, 0x02, 0xE5, 0x36, 0x10, 0xF8, 0x4C, 0x40, 0xBD,
            0x91, 0x35, 0xAC, 0xD4, 0x10, 0x10, 0x12, 0x41, 0x0A, 0x14] = 907081804
   \<and> generateTOTP webCrypto 1111111109000 rfcSecret 30 = Inr ''081804''"
proof -
  let ?d = "[0x27, 0x8C, 0x02, 0xE5, 0x36, 0x10, 0xF8, 0x4C, 0x40, 0xBD,
            0x91, 0x35, 0xAC, 0xD4, 0x10, 0x10, 0x12, 0x41, 0x0A, 0x14] :: byte list"
  have h: "hmacSha1 webCrypto (base32ToBuffer rfcSecret) [0, 0, 0, 0, 2, 0x35, 0x23, 0xEC] = Inr ?d"
    by (simp only: rfcKey_decoded digest_37037036)
  have l: "length ?d = 20" by simp
  have v: "dtBinary ?d = 907081804"
    by (simp add: dtBinary_def dtOffset_def)
  from generateTOTP_truncation [OF rfcKey_nonempty counter_1111111109 h l]
  have "generateTOTP webCrypto 1111111109000 rfcSecret 30
      = Inr (padStart 6 CHR ''0'' (natToString (nat (dtBinary ?d mod 1000000))))"
    by blast
  also have "nat (dtBinary ?d mod 1000000) = 81804"
    by (simp add: v)
  finally have "generateTOTP webCrypto 1111111109000 rfcSecret 30 = Inr ''081804''"
    by (simp add: natToString_81804 padStart_def)
  with rfcKey_nonempty counter_1111111109 h v show ?thesis
    by blast
qed

text \<open>
  Claim C3. \<^verbatim>\<open>generateTOTP\<close> resolves to \<^verbatim>\<open>INVALID\<close> exactly when
  \<^verbatim>\<open>base32ToBuffer\<close> returns an empty array, which it does for the empty secret and for
  \<^verbatim>\<open>====\<close>; to \<^verbatim>\<open>ERROR\<close> exactly when the key is not empty and the platform fails;
  and otherwise to six digits, which are neither of the two. It is never rejected.
\<close>

theorem generateTOTP_sentinels:
  "(generateTOTP crypto now secret w = Inr ''INVALID'' \<longleftrightarrow> base32ToBuffer secret = [])
   \<and> generateTOTP crypto now '''' w = Inr ''INVALID''
   \<and> generateTOTP crypto now ''===='' w = Inr ''INVALID''
   \<and> (\<exists>buffer. counterBuffer now w = Inr buffer
        \<and> (generateTOTP crypto now secret w = Inr ''ERROR''
             \<longleftrightarrow> base32ToBuffer secret \<noteq> []
                 \<and> (\<exists>e. hmacSha1 crypto (base32ToBuffer secret) buffer = Inl e))
        \<and> (\<forall>digest. base32ToBuffer secret \<noteq> []
               \<and> hmacSha1 crypto (base32ToBuffer secret) buffer = Inr digest
             \<longrightarrow> (\<exists>code. generateTOTP crypto now secret w = Inr code \<and> length code = 6
                    \<and> (\<forall>c\<in>set code. isDigit c) \<and> code \<noteq> ''INVALID'' \<and> code \<noteq> ''ERROR'')))
   \<and> (\<exists>code. generateTOTP crypto now secret w = Inr code)"
proof -
  obtain buffer where b: "counterBuffer now w = Inr buffer"
    using counterBuffer_total by blast
  have e1: "base32ToBuffer '''' = []" by code_simp
  have e2: "base32ToBuffer ''===='' = []" by code_simp
  have tot: "\<exists>code. generateTOTP crypto now secret w = Inr code"
    by (simp add: generateTOTP_def split: sum.splits)
  have code: "\<exists>code. generateTOTP crypto now secret w = Inr code \<and> length code = 6
      \<and> (\<forall>c\<in>set code. isDigit c) \<and> code \<noteq> ''INVALID'' \<and> code \<noteq> ''ERROR''"
    if "base32ToBuffer secret \<noteq> []"
      and "hmacSha1 crypto (base32ToBuffer secret) buffer = Inr digest" for digest
    using that(1) b that(2) by (rule generateTOTP_code_shape)
  from generateTOTP_INVALID_iff [of crypto now secret w] generateTOTP_ERROR_iff [OF b, of crypto secret]
    generateTOTP_empty [OF e1, of crypto now w] generateTOTP_empty [OF e2, of crypto now w]
    code tot b
  show ?thesis
    by blast
qed

theorem generateTOTP_sentinels_witness:
  "base32ToBuffer rfcSecret \<noteq> []
   \<and> counterBuffer 59000 30 = Inr [0, 0, 0, 0, 0, 0, 0, 1]
   \<and> hmacSha1 noCrypto (base32ToBuffer rfcSecret) [0, 0, 0, 0, 0, 0, 0, 1] = Inl CryptoError
   \<and> generateTOTP noCrypto 59000 rfcSecret 30 = Inr ''ERROR''
   \<and> hmacSha1 webCrypto (base32ToBuffer rfcSecret) [0, 0, 0, 0, 0, 0, 0, 1] =
       Inr [0x75, 0xA4, 0x8A, 0x19, 0xD4, 0xCB, 0xE1, 0x00, 0x64, 0x4E,
            0x8A, 0xC1, 0x39, 0x7E, 0xEA, 0x74, 0x7A, 0x2D, 0x33, 0xAB]
   \<and> generateTOTP webCrypto 59000 rfcSecret 30 \<noteq> Inr ''INVALID''
   \<and> generateTOTP webCrypto 59000 rfcSecret 30 \<noteq> Inr ''ERROR''"
proof -
  let ?d = "[0x75, 0xA4, 0x8A, 0x19, 0xD4, 0xCB, 0xE1, 0x00, 0x64, 0x4E,
            0x8A, 0xC1, 0x39, 0x7E, 0xEA, 0x74, 0x7A, 0x2D, 0x33, 0xAB] :: byte list"
  have h: "hmacSha1 noCrypto (base32ToBuffer rfcSecret) [0, 0, 0, 0, 0, 0, 0, 1] = Inl CryptoError"
    by (simp add: hmacSha1_def noCrypto_def)
  have g: "hmacSha1 webCrypto (base32ToBuffer rfcSecret) [0, 0, 0, 0, 0, 0, 0, 1] = Inr ?d"
    by (simp only: rfcKey_decoded digest_1)
  from generateTOTP_sentinels [of noCrypto 59000 rfcSecret 30] counter_59
  have "generateTOTP noCrypto 59000 rfcSecret 30 = Inr ''ERROR''
      \<longleftrightarrow> base32ToBuffer rfcSecret \<noteq> []
        \<and> (\<exists>e. hmacSha1 noCrypto (base32ToBuffer rfcSecret) [0, 0, 0, 0, 0, 0, 0, 1] = Inl e)"
    by auto
  with rfcKey_nonempty h have e: "generateTOTP noCrypto 59000 rfcSecret 30 = Inr ''ERROR''"
    by blast
  from generateTOTP_sentinels [of webCrypto 59000 rfcSecret 30] counter_59
  have "\<forall>digest. base32ToBuffer rfcSecret \<noteq> []
          \<and> hmacSha1 webCrypto (base32ToBuffer rfcSecret) [0, 0, 0, 0, 0, 0, 0, 1] = Inr digest
        \<longrightarrow> (\<exists>code. generateTOTP webCrypto 59000 rfcSecret 30 = Inr code
              \<and> code \<noteq> ''INVALID'' \<and> code \<noteq> ''ERROR'')"
    by auto
  with rfcKey_nonempty g
  have "generateTOTP webCrypto 59000 rfcSecret 30 \<noteq> Inr ''INVALID''"
    and "generateTOTP webCrypto 59000 rfcSecret 30 \<noteq> Inr ''ERROR''"
    by auto
  with rfcKey_nonempty counter_59 h e g show ?thesis
    by blast
qed

text \<open>
  Claim C8. Two runs with the same platform, secret and window, at clock readings that
  round to the same epoch, have the same result: the clock is read through the rounded
  epoch only.
\<close>

theorem generateTOTP_deterministic:
  assumes "epochOf now1 = epochOf now2"
  shows "generateTOTP crypto now1 secret w = generateTOTP crypto now2 secret w"
proof -
  have h: "counterBuffer now1 w = counterBuffer now2 w"
    using assms by (simp add: counterBuffer_def)
  show ?thesis
    unfolding generateTOTP_unfold h by (rule refl)
qed

theorem generateTOTP_deterministic_witness:
  "epochOf 59000 = epochOf 59499
   \<and> generateTOTP webCrypto 59000 rfcSecret 30 = Inr ''287082''
   \<and> generateTOTP webCrypto 59499 rfcSecret 30 = Inr ''287082''"
proof -
  have e: "epochOf 59000 = epochOf 59499"
    by (simp add: epochOf_def)
  from generateTOTP_deterministic [OF e, of webCrypto rfcSecret 30]
  have "generateTOTP webCrypto 59499 rfcSecret 30 = Inr ''287082''"
    by (simp only: rfc_code_59)
  with e rfc_code_59 show ?thesis by blast
qed

text \<open>
  Claim C9, as the program has it. With the secret of RFC 6238 and HMAC-SHA1 as the
  standards define it, the counter at 59 s is 1, its digest is the one that RFC 4226 lists
  for this key and counter, and \<^verbatim>\<open>generateTOTP\<close> resolves to the last six of the
  eight digits that RFC 6238 publishes for SHA-1 at 59 s: \<^verbatim>\<open>287082\<close> of 94287082. At
  1111111109 s it resolves to \<^verbatim>\<open>081804\<close>, the last six digits of 07081804.
\<close>

theorem generateTOTP_rfc6238:
  "epochOf 59000 = 59
   \<and> counterBuffer 59000 30 = Inr [0, 0, 0, 0, 0, 0, 0, 1]
   \<and> hmacSha1 webCrypto (base32ToBuffer rfcSecret) [0, 0, 0, 0, 0, 0, 0, 1] =
       Inr [0x75, 0xA4, 0x8A, 0x19, 0xD4, 0xCB, 0xE1, 0x00, 0x64, 0x4E,
            0x8A, 0xC1, 0x39, 0x7E, 0xEA, 0x74, 0x7A, 0x2D, 0x33, 0xAB]
   \<and> generateTOTP webCrypto 59000 rfcSecret 30 = Inr (drop 2 rfcTotp_59)
   \<and> drop 2 rfcTotp_59 = ''287082''
   \<and> epochOf 1111111109000 = 1111111109
   \<and> generateTOTP webCrypto 1111111109000 rfcSecret 30 = Inr (drop 2 rfcTotp_1111111109)
   \<and> drop 2 rfcTotp_1111111109 = ''081804''"
proof -
  have "epochOf 59000 = 59" "epochOf 1111111109000 = 1111111109"
    by (simp_all add: epochOf_def)
  moreover have "hmacSha1 webCrypto (base32ToBuffer rfcSecret) [0, 0, 0, 0, 0, 0, 0, 1] =
       Inr [0x75, 0xA4, 0x8A, 0x19, 0xD4, 0xCB, 0xE1, 0x00, 0x64, 0x4E,
            0x8A, 0xC1, 0x39, 0x7E, 0xEA, 0x74, 0x7A, 0x2D, 0x33, 0xAB]"
    by (simp only: rfcKey_decoded digest_1)
  moreover have d: "drop 2 rfcTotp_59 = ''287082''" "drop 2 rfcTotp_1111111109 = ''081804''"
    by (simp_all add: rfcTotp_59_def rfcTotp_1111111109_def)
  moreover have "generateTOTP webCrypto 59000 rfcSecret 30 = Inr (drop 2 rfcTotp_59)"
    "generateTOTP webCrypto 1111111109000 rfcSecret 30 = Inr (drop 2 rfcTotp_1111111109)"
    by (simp_all only: d rfc_code_59 rfc_code_1111111109)
  ultimately show ?thesis
    using counter_59 by blast
qed

text \<open>
  Claim C9, as it is stated, fails: the code has 6 digits and the published one has 8. At
  59 s \<^verbatim>\<open>generateTOTP\<close> resolves to \<^verbatim>\<open>287082\<close>, which is not the published
  \<^verbatim>\<open>94287082\<close>.
\<close>

theorem generateTOTP_rfc6238_counterexample:
  "generateTOTP webCrypto 59000 rfcSecret 30 = Inr ''287082''
   \<and> rfcTotp_59 = ''94287082''
   \<and> generateTOTP webCrypto 59000 rfcSecret 30 \<noteq> Inr rfcTotp_59"
  by (simp add: rfc_code_59 rfcTotp_59_def)

end
